theory Spec2Isabelle
  imports Main
begin

section \<open>Tensors\<close>

text \<open>
  The layer of \<^verbatim>\<open>modules/linearized_convolution.py\<close> computes with tensors of the host
  framework. A tensor of rank 2 or 3 is a rectangular nested list; the predicates
  \<open>is_tensor2\<close> and \<open>is_tensor3\<close> say which nested lists are tensors of a given shape.
  Entries are taken from a commutative semiring: arithmetic is exact, rounding is not
  modelled, so two results that agree "within floating-point tolerance" because they add
  the same products in a different order are equal here.

  The framework's operations fail on operands whose shapes do not fit. Such a failure is
  the value \<open>Inl TensorError\<close>; the layer's own guard raises \<open>InferenceOnly\<close>.
\<close>

datatype error = InferenceOnly | TensorError

type_synonym 'a tensor2 = "'a list list"
type_synonym 'a tensor3 = "'a list list list"
type_synonym 'a params = "'a tensor3 \<times> 'a list option"

definition is_tensor2 :: "nat \<Rightarrow> nat \<Rightarrow> 'a tensor2 \<Rightarrow> bool" where
  "is_tensor2 n m x \<longleftrightarrow> length x = n \<and> list_all (\<lambda>r. length r = m) x"

definition is_tensor3 :: "nat \<Rightarrow> nat \<Rightarrow> nat \<Rightarrow> 'a tensor3 \<Rightarrow> bool" where
  "is_tensor3 n m k x \<longleftrightarrow> length x = n \<and> list_all (is_tensor2 m k) x"

text \<open>\<^verbatim>\<open>x.size(1)\<close> and \<open>x.size(2)\<close>, read off the first row.\<close>

definition size1 :: "'a list list \<Rightarrow> nat" where
  "size1 x = (case x of [] \<Rightarrow> 0 | r # _ \<Rightarrow> length r)"

definition size2 :: "'a list list list \<Rightarrow> nat" where
  "size2 x = (case x of [] \<Rightarrow> 0 | r # _ \<Rightarrow> size1 r)"

text \<open>\<^verbatim>\<open>x.transpose(1, 2)\<close> swaps the last two axes of a rank-3 tensor.\<close>

definition transpose2 :: "'a tensor2 \<Rightarrow> 'a tensor2" where
  "transpose2 x = map (\<lambda>j. map (\<lambda>r. r ! j) x) [0..<size1 x]"

definition transpose12 :: "'a tensor3 \<Rightarrow> 'a tensor3" where
  "transpose12 x = map transpose2 x"

definition dot :: "'a::comm_semiring_0 list \<Rightarrow> 'a list \<Rightarrow> 'a" where
  "dot xs ys = sum_list (map2 (*) xs ys)"

definition bias_ok :: "'a list option \<Rightarrow> nat \<Rightarrow> bool" where
  "bias_ok b n = (case b of None \<Rightarrow> True | Some bv \<Rightarrow> length bv = n)"

definition add_bias :: "'a::comm_semiring_0 list option \<Rightarrow> nat \<Rightarrow> 'a \<Rightarrow> 'a" where
  "add_bias b j v = (case b of None \<Rightarrow> v | Some bv \<Rightarrow> v + bv ! j)"

text \<open>
  \<^verbatim>\<open>F.linear(x, w, b)\<close> is \<open>x w\<^sup>T + b\<close> on the last axis of \<open>x\<close>: \<open>w\<close> has
  shape (out, n), every row of \<open>x\<close> has \<open>n\<close> entries, \<open>b\<close> is absent or has \<open>out\<close> entries.
\<close>

definition linear_row :: "'a::comm_semiring_0 tensor2 \<Rightarrow> 'a list option \<Rightarrow> 'a list \<Rightarrow> 'a list" where
  "linear_row w b r = map (\<lambda>j. add_bias b j (dot r (w ! j))) [0..<length w]"

definition F_linear :: "'a::comm_semiring_0 tensor2 \<Rightarrow> 'a tensor2 \<Rightarrow> 'a list option \<Rightarrow> error + 'a tensor2" where
  "F_linear x w b =
     (if list_all (\<lambda>r. length r = size1 w) x \<and> bias_ok b (length w)
      then Inr (map (linear_row w b) x)
      else Inl TensorError)"

definition F_linear3 :: "'a::comm_semiring_0 tensor3 \<Rightarrow> 'a tensor2 \<Rightarrow> 'a list option \<Rightarrow> error + 'a tensor3" where
  "F_linear3 x w b =
     (if list_all (list_all (\<lambda>r. length r = size1 w)) x \<and> bias_ok b (length w)
      then Inr (map (map (linear_row w b)) x)
      else Inl TensorError)"

text \<open>
  \<^verbatim>\<open>F.conv1d(x, w, b, stride, padding, dilation)\<close>, the framework's convolution
  primitive (a cross-correlation), on an input of shape (batch, in, len) and a weight of
  shape (out, in, kw): both ends of the time axis are padded with \<open>padding\<close> zeros, and
  \<open>out[n][j][t] = b[j] + (\<Sum>c k. w[j][c][k] * padded[n][c][t * stride + k * dilation])\<close>
  for \<open>t\<close> below \<open>(len + 2 * padding - dilation * (kw - 1) - 1) div stride + 1\<close>.
\<close>

definition pad_zeros :: "nat \<Rightarrow> 'a::comm_semiring_0 list \<Rightarrow> 'a list" where
  "pad_zeros p xs = replicate p 0 @ xs @ replicate p 0"

definition conv_out_len :: "nat \<Rightarrow> nat \<Rightarrow> nat \<Rightarrow> nat \<Rightarrow> nat \<Rightarrow> nat" where
  "conv_out_len len kw s p d = (len + 2 * p - d * (kw - 1) - 1) div s + 1"

definition conv_at :: "'a::comm_semiring_0 tensor2 \<Rightarrow> 'a tensor2 \<Rightarrow> nat \<Rightarrow> nat \<Rightarrow> nat \<Rightarrow> 'a" where
  "conv_at wj xp s d t =
     sum_list (map2 (\<lambda>wc xc. sum_list (map (\<lambda>k. wc ! k * xc ! (t * s + k * d)) [0..<length wc])) wj xp)"

definition F_conv1d ::
  "'a::comm_semiring_0 tensor3 \<Rightarrow> 'a tensor3 \<Rightarrow> 'a list option \<Rightarrow> nat \<Rightarrow> nat \<Rightarrow> nat \<Rightarrow> error + 'a tensor3" where
  "F_conv1d x w b s p d =
     (let kw = size2 w; len = size2 x in
      if list_all (\<lambda>xn. length xn = size1 w) x \<and> bias_ok b (length w)
         \<and> 0 < s \<and> 0 < d \<and> 0 < kw \<and> d * (kw - 1) + 1 \<le> len + 2 * p
      then Inr (map (\<lambda>xn. let xp = map (pad_zeros p) xn in
                  map (\<lambda>j. map (\<lambda>t. add_bias b j (conv_at (w ! j) xp s d t))
                                [0..<conv_out_len len kw s p d])
                      [0..<length w]) x)
      else Inl TensorError)"

section \<open>The layer\<close>

text \<open>
  \<open>LinearizedConvolution\<close> extends the framework's \<open>Conv1d\<close>. The record holds the fields
  of the base class that the methods read (with \<open>groups = 1\<close>, so the weight has shape
  (out, in, kernel width)), the module's \<open>training\<close> flag, the two fields the class adds
  (\<open>input_buffer\<close>, and \<open>_linearized_weight\<close> under the name \<open>linearized_weight\<close>) and
  the registered forward pre-hooks. A pre-hook is called for its effect on the module;
  it is modelled by what it does to the parameters (weight normalisation recomputes the
  weight), and what it returns is dropped, as in the source.

  The last three fields are what the framework holds for the module. \<open>backward_hooks\<close>
  is the registry \<open>_backward_hooks\<close>; the hooks are named, and the one this class
  registers is \<open>_clear_linearized_weight\<close>. \<open>graph_hooks\<close> has one entry for every
  result of \<open>__call__\<close> that is recorded in the autograd graph, in the order of the calls:
  the backward hooks that \<open>__call__\<close> attached to it, which every backward pass through
  that result runs. \<open>linearized_weight_shared\<close> says whether the
  cached tensor shares the storage of the tensor that is the module's weight now, so that
  a write into the weight shows in the cache.
\<close>

datatype backward_hook = ClearLinearizedWeight

record 'a layer =
  kernel_size :: nat
  stride :: nat
  padding :: nat
  dilation :: nat
  weight :: "'a tensor3"
  bias :: "'a list option"
  training :: bool
  input_buffer :: "'a tensor3 option"
  linearized_weight :: "'a tensor2 option"
  forward_pre_hooks :: "('a params \<Rightarrow> 'a params) list"
  backward_hooks :: "backward_hook list"
  graph_hooks :: "backward_hook list list"
  linearized_weight_shared :: bool

definition clear_buffer :: "'a layer \<Rightarrow> 'a layer" where
  "clear_buffer L = L\<lparr>input_buffer := None\<rparr>"

definition clear_linearized_weight :: "'a layer \<Rightarrow> 'a layer" where
  "clear_linearized_weight L = L\<lparr>linearized_weight := None\<rparr>"

fun run_backward_hook :: "backward_hook \<Rightarrow> 'a layer \<Rightarrow> 'a layer" where
  "run_backward_hook ClearLinearizedWeight L = clear_linearized_weight L"

text \<open>
  \<open>__init__\<close>: the base class has built the parameters (the argument); the buffer and
  the cache start empty, and \<open>register_backward_hook\<close> adds \<open>_clear_linearized_weight\<close>
  to the registry.
\<close>

definition init :: "'a layer \<Rightarrow> 'a layer" where
  "init base = (clear_buffer base)
     \<lparr>linearized_weight := None,
      backward_hooks := backward_hooks base @ [ClearLinearizedWeight]\<rparr>"

text \<open>The base class's forward: the convolution primitive with the layer's configuration.\<close>

definition Conv1d_forward :: "'a::comm_semiring_0 layer \<Rightarrow> 'a tensor3 \<Rightarrow> error + 'a tensor3" where
  "Conv1d_forward L x = F_conv1d x (weight L) (bias L) (stride L) (padding L) (dilation L)"

text \<open>
  \<open>forward\<close>, on an input of shape (batch, time, channels). The first branch is the
  convolution path. In the second, \<open>squeeze(2)\<close> drops the kernel axis when its size is 1
  and leaves the weight of rank 3 otherwise, which \<open>F.linear\<close> rejects.
\<close>

definition forward_conv :: "'a::comm_semiring_0 layer \<Rightarrow> 'a tensor3 \<Rightarrow> error + 'a tensor3" where
  "forward_conv L x =
     (case Conv1d_forward L (transpose12 x) of
        Inl e \<Rightarrow> Inl e
      | Inr y \<Rightarrow> Inr (transpose12 y))"

definition forward_linear :: "'a::comm_semiring_0 layer \<Rightarrow> 'a tensor3 \<Rightarrow> error + 'a tensor3" where
  "forward_linear L x =
     (if size2 (weight L) = 1 then F_linear3 x (map (map hd) (weight L)) (bias L)
      else Inl TensorError)"

definition forward :: "'a::comm_semiring_0 layer \<Rightarrow> 'a tensor3 \<Rightarrow> error + 'a tensor3" where
  "forward L x = (if kernel_size L > 1 then forward_conv L x else forward_linear L x)"

text \<open>
  \<open>remove_future_timesteps\<close>: the slice \<^verbatim>\<open>x[:, :-p, :]\<close> keeps the first \<open>len - p\<close>
  time steps of every batch row, none when \<open>p\<close> is not below \<open>len\<close>.
\<close>

definition remove_future_timesteps :: "'a layer \<Rightarrow> 'a tensor3 \<Rightarrow> 'a tensor3" where
  "remove_future_timesteps L x =
     (if kernel_size L > 1 \<and> padding L > 0
      then map (\<lambda>r. take (length r - padding L) r) x
      else x)"

text \<open>
  \<open>_get_linearized_weight\<close>: \<^verbatim>\<open>weight.transpose(1, 2).contiguous().view(nout, kw * nin)\<close>
  lays every output channel's (kw, in) matrix out row after row. \<open>contiguous()\<close> returns
  its argument when that is contiguous already, which the transposed weight is exactly
  when it has one input channel or kernel width 1, and \<open>view\<close> never copies: then the
  cached tensor shares the weight's storage. Otherwise it is a copy.
\<close>

definition linearize :: "'a tensor3 \<Rightarrow> 'a tensor2" where
  "linearize w = map concat (transpose12 w)"

definition get_linearized_weight :: "'a layer \<Rightarrow> 'a tensor2 \<times> 'a layer" where
  "get_linearized_weight L =
     (case linearized_weight L of
        None \<Rightarrow>
          (let lw = linearize (weight L)
           in (lw, L\<lparr>linearized_weight := Some lw,
                     linearized_weight_shared := (size1 (weight L) = 1 \<or> size2 (weight L) = 1)\<rparr>))
      | Some lw \<Rightarrow> (lw, L))"

text \<open>
  The forward pre-hooks, in registration order. A hook assigns the attribute (weight
  normalisation does \<^verbatim>\<open>setattr(module, 'weight', ...)\<close>), so after a hook the module's
  weight is another tensor than the one a cached view was taken of.
\<close>

definition run_forward_pre_hooks :: "'a layer \<Rightarrow> 'a layer" where
  "run_forward_pre_hooks L =
     (let (w, b) = fold (\<lambda>hook p. hook p) (forward_pre_hooks L) (weight L, bias L)
      in L\<lparr>weight := w, bias := b,
           linearized_weight_shared := (linearized_weight_shared L \<and> forward_pre_hooks L = [])\<rparr>)"

text \<open>
  The buffer update of \<open>incremental_forward\<close>. \<open>new_buffer\<close> is
  \<^verbatim>\<open>input.new(bsz, kw, input.size(2))\<close> after \<open>zero_()\<close>; \<open>shift_buffer\<close> is
  \<^verbatim>\<open>buf[:, :-1, :] = buf[:, 1:, :].clone()\<close>, which leaves the last frame in place;
  \<open>append_input\<close> is \<^verbatim>\<open>buf[:, -1, :] = input[:, -1, :]\<close>, which needs a last input frame
  in every batch row and the two sides of one shape.
\<close>

definition new_buffer :: "nat \<Rightarrow> nat \<Rightarrow> nat \<Rightarrow> 'a::comm_semiring_0 tensor3" where
  "new_buffer bsz kw dim = replicate bsz (replicate kw (replicate dim 0))"

definition shift_buffer :: "'a tensor3 \<Rightarrow> 'a tensor3" where
  "shift_buffer buf = map (\<lambda>r. case r of [] \<Rightarrow> [] | _ # fs \<Rightarrow> fs @ [last r]) buf"

definition append_ok :: "'a tensor3 \<Rightarrow> 'a tensor3 \<Rightarrow> bool" where
  "append_ok buf x \<longleftrightarrow>
     length buf = length x \<and>
     list_all (\<lambda>(r, xr). r \<noteq> [] \<and> xr \<noteq> [] \<and> length (last r) = length (last xr)) (zip buf x)"

definition append_input :: "'a tensor3 \<Rightarrow> 'a tensor3 \<Rightarrow> 'a tensor3" where
  "append_input buf x = map2 (\<lambda>r xr. butlast r @ [last xr]) buf x"

text \<open>
  \<open>incremental_forward\<close>. The layer is mutated in place, so the layer is returned with
  the result also when the call raises: the state is what the call had written by then.
  \<^verbatim>\<open>view(bsz, -1)\<close> flattens every batch row, \<^verbatim>\<open>view(bsz, 1, -1)\<close> wraps every output
  row as one time step.
\<close>

definition incremental_forward ::
  "'a::comm_semiring_0 layer \<Rightarrow> 'a tensor3 \<Rightarrow> 'a layer \<times> (error + 'a tensor3)" where
  "incremental_forward L x =
     (if training L then (L, Inl InferenceOnly)
      else
        let L1 = run_forward_pre_hooks L;
            (w, L2) = get_linearized_weight L1;
            kw = kernel_size L2;
            bsz = length x
        in if kw > 1 then
             let buf = (case input_buffer L2 of
                          None \<Rightarrow> new_buffer bsz kw (size2 x)
                        | Some old \<Rightarrow> shift_buffer old);
                 L3 = L2\<lparr>input_buffer := Some buf\<rparr>
             in if append_ok buf x then
                  let buf' = append_input buf x;
                      L4 = L3\<lparr>input_buffer := Some buf'\<rparr>
                  in (L4, case F_linear (map concat buf') w (bias L4) of
                            Inl e \<Rightarrow> Inl e
                          | Inr y \<Rightarrow> Inr (map (\<lambda>r. [r]) y))
                else (L3, Inl TensorError)
           else (L2, case F_linear (map concat x) w (bias L2) of
                       Inl e \<Rightarrow> Inl e
                     | Inr y \<Rightarrow> Inr (map (\<lambda>r. [r]) y)))"

text \<open>
  \<open>reorder_buffer\<close>: \<^verbatim>\<open>index_select(0, new_order)\<close> picks the batch rows named by
  \<open>new_order\<close> and fails on an index that is not a row; the layer is then as before.
\<close>

definition reorder_buffer :: "'a layer \<Rightarrow> nat list \<Rightarrow> error + 'a layer" where
  "reorder_buffer L new_order =
     (case input_buffer L of
        None \<Rightarrow> Inr L
      | Some buf \<Rightarrow>
          if list_all (\<lambda>i. i < length buf) new_order
          then Inr (L\<lparr>input_buffer := Some (map (\<lambda>i. buf ! i) new_order)\<rparr>)
          else Inl TensorError)"

section \<open>Decoding loops\<close>

text \<open>
  A decoder calls \<open>incremental_forward\<close> once per time step and stops at the first call
  that raises. \<open>time_frames\<close> cuts an input of shape (batch, time, channels) into its
  single-frame inputs of shape (batch, 1, channels); \<open>cat_time\<close> is
  \<^verbatim>\<open>torch.cat(ys, dim=1)\<close>, which rejects an empty list.
\<close>

fun incremental_steps ::
  "'a::comm_semiring_0 layer \<Rightarrow> 'a tensor3 list \<Rightarrow> 'a layer \<times> (error + 'a tensor3 list)" where
  "incremental_steps L [] = (L, Inr [])"
| "incremental_steps L (x # xs) =
     (case incremental_forward L x of
        (L', Inl e) \<Rightarrow> (L', Inl e)
      | (L', Inr y) \<Rightarrow>
          (case incremental_steps L' xs of
             (L'', Inl e) \<Rightarrow> (L'', Inl e)
           | (L'', Inr ys) \<Rightarrow> (L'', Inr (y # ys))))"

definition time_frames :: "'a tensor3 \<Rightarrow> 'a tensor3 list" where
  "time_frames x = map (\<lambda>t. map (\<lambda>r. [r ! t]) x) [0..<size1 x]"

definition cat_time :: "'a tensor3 list \<Rightarrow> error + 'a tensor3" where
  "cat_time ys =
     (case ys of
        [] \<Rightarrow> Inl TensorError
      | y # _ \<Rightarrow> Inr (map (\<lambda>n. concat (map (\<lambda>y. y ! n) ys)) [0..<length y]))"

text \<open>
  The registered pre-hooks are settled when running them leaves weight and bias as they
  are: none is registered, or each has already been applied (weight normalisation in
  inference recomputes the same weight at every call).
\<close>

definition hooks_settled :: "'a layer \<Rightarrow> bool" where
  "hooks_settled L \<longleftrightarrow>
     fold (\<lambda>hook p. hook p) (forward_pre_hooks L) (weight L, bias L) = (weight L, bias L)"

text \<open>The cache is coherent when it is empty or holds the linearisation of the weight.\<close>

definition cache_coherent :: "'a layer \<Rightarrow> bool" where
  "cache_coherent L \<longleftrightarrow>
     (case linearized_weight L of None \<Rightarrow> True | Some lw \<Rightarrow> lw = linearize (weight L))"

section \<open>The life of a layer\<close>

text \<open>
  What happens to a layer between construction and a call, as events. \<open>Forward\<close>,
  \<open>IncrementalForward\<close>, \<open>ClearBuffer\<close> and \<open>ReorderBuffer\<close> are calls of the
  methods; a call that raises leaves the layer as the call left it, and the caller goes on.
  The others come from the framework and the training loop.
  \<^item> \<open>Call x recorded\<close> is \<^verbatim>\<open>layer(x)\<close>, the framework's \<open>__call__\<close>: it runs the forward
    pre-hooks and \<open>forward\<close>, and when the result is recorded in the autograd graph (it
    has a \<open>grad_fn\<close>) it attaches the registered backward hooks to it.
  \<^item> \<open>Backward results\<close> is a backward pass, through the results of \<open>__call__\<close> that
    \<open>results\<close> names by their positions among the recorded ones: the hooks attached to
    them run. A backward pass through no result of \<open>__call__\<close> is \<open>Backward []\<close>.
  \<^item> \<open>UpdateInPlace\<close> writes new values into the storage of the parameters (an optimiser
    step, a loaded checkpoint), which needs values of the parameters' shapes and raises
    otherwise; \<open>Update\<close> assigns new tensors to the attributes.
  \<^item> \<open>SetTraining\<close> is \<^verbatim>\<open>train()\<close> or \<^verbatim>\<open>eval()\<close>.
\<close>

datatype 'a event =
    Forward "'a tensor3"
  | Call "'a tensor3" bool
  | IncrementalForward "'a tensor3"
  | ClearBuffer
  | ReorderBuffer "nat list"
  | Backward "nat list"
  | Update "'a tensor3" "'a list option"
  | UpdateInPlace "'a tensor3" "'a list option"
  | SetTraining bool

definition reached :: "backward_hook list list \<Rightarrow> nat list \<Rightarrow> backward_hook list" where
  "reached attached results =
     concat (map (\<lambda>(i, hooks). if i \<in> set results then hooks else []) (enumerate 0 attached))"

definition same_shape :: "'a layer \<Rightarrow> 'a tensor3 \<Rightarrow> 'a list option \<Rightarrow> bool" where
  "same_shape L w b \<longleftrightarrow>
     map (map length) w = map (map length) (weight L) \<and>
     map_option length b = map_option length (bias L)"

fun perform :: "'a::comm_semiring_0 layer \<Rightarrow> 'a event \<Rightarrow> 'a layer" where
  "perform L (Forward x) = L"
| "perform L (Call x recorded) =
     (let L1 = run_forward_pre_hooks L
      in case forward L1 x of
           Inl e \<Rightarrow> L1
         | Inr y \<Rightarrow>
             if recorded then L1\<lparr>graph_hooks := graph_hooks L1 @ [backward_hooks L1]\<rparr> else L1)"
| "perform L (IncrementalForward x) = fst (incremental_forward L x)"
| "perform L ClearBuffer = clear_buffer L"
| "perform L (ReorderBuffer new_order) =
     (case reorder_buffer L new_order of Inl e \<Rightarrow> L | Inr L' \<Rightarrow> L')"
| "perform L (Backward results) = fold run_backward_hook (reached (graph_hooks L) results) L"
| "perform L (Update w b) = L\<lparr>weight := w, bias := b, linearized_weight_shared := False\<rparr>"
| "perform L (UpdateInPlace w b) =
     (if same_shape L w b
      then L\<lparr>weight := w, bias := b,
             linearized_weight :=
               (if linearized_weight_shared L
                then map_option (\<lambda>old. linearize w) (linearized_weight L)
                else linearized_weight L)\<rparr>
      else L)"
| "perform L (SetTraining t) = L\<lparr>training := t\<rparr>"

definition run :: "'a::comm_semiring_0 layer \<Rightarrow> 'a event list \<Rightarrow> 'a layer" where
  "run L es = foldl perform L es"

text \<open>Incremental activity: the calls a decoder makes.\<close>

fun incremental_activity :: "'a event \<Rightarrow> bool" where
  "incremental_activity (Forward x) = True"
| "incremental_activity (Call x recorded) = False"
| "incremental_activity (IncrementalForward x) = True"
| "incremental_activity ClearBuffer = True"
| "incremental_activity (ReorderBuffer new_order) = True"
| "incremental_activity (Backward results) = False"
| "incremental_activity (Update w b) = False"
| "incremental_activity (UpdateInPlace w b) = False"
| "incremental_activity (SetTraining t) = False"

text \<open>
  An event clears the cache when it is a backward pass through a result of the layer to
  which \<open>_clear_linearized_weight\<close> is attached; \<open>no_clearing L es\<close> says that no event
  of \<open>es\<close>, performed from \<open>L\<close> on, does. An event writes in place when it is an
  \<open>UpdateInPlace\<close>.
\<close>

fun clears :: "'a layer \<Rightarrow> 'a event \<Rightarrow> bool" where
  "clears L (Backward results) \<longleftrightarrow>
     ClearLinearizedWeight \<in> set (reached (graph_hooks L) results)"
| "clears L e \<longleftrightarrow> False"

fun no_clearing :: "'a::comm_semiring_0 layer \<Rightarrow> 'a event list \<Rightarrow> bool" where
  "no_clearing L [] = True"
| "no_clearing L (e # es) = (\<not> clears L e \<and> no_clearing (perform L e) es)"

fun in_place :: "'a event \<Rightarrow> bool" where
  "in_place (UpdateInPlace w b) = True"
| "in_place e = False"

text \<open>A cache that shares the weight's storage shows the weight as it is now.\<close>

definition view_current :: "'a layer \<Rightarrow> bool" where
  "view_current L \<longleftrightarrow>
     (case linearized_weight L of
        None \<Rightarrow> True
      | Some lw \<Rightarrow> linearized_weight_shared L \<longrightarrow> lw = linearize (weight L))"

text \<open>
  Two layers are alike for inference when they have the same parameters, kernel width,
  mode, pre-hooks and buffer, the pre-hooks are settled and both caches are coherent.
\<close>

definition alike :: "'a layer \<Rightarrow> 'a layer \<Rightarrow> bool" where
  "alike A B \<longleftrightarrow>
     kernel_size A = kernel_size B \<and> weight A = weight B \<and> bias A = bias B \<and>
     training A = training B \<and> forward_pre_hooks A = forward_pre_hooks B \<and>
     input_buffer A = input_buffer B \<and>
     hooks_settled A \<and> cache_coherent A \<and> cache_coherent B"

section \<open>Example layers\<close>

text \<open>
  The layer of the specification's scenario (kernel width 3, one input and one output
  channel, weight \<open>[1, 2, 3]\<close>, bias 0, causal padding 2), the same layer in training
  mode with a buffer and a cached linearisation, and a layer with a buffer of three
  batch rows.
\<close>

definition scenario_layer :: "int layer" where
  "scenario_layer = \<lparr>kernel_size = 3, stride = 1, padding = 2, dilation = 1,
     weight = [[[1, 2, 3]]], bias = Some [0], training = False,
     input_buffer = None, linearized_weight = None, forward_pre_hooks = [],
     backward_hooks = [ClearLinearizedWeight], graph_hooks = [],
     linearized_weight_shared = False\<rparr>"

definition training_layer :: "int layer" where
  "training_layer = scenario_layer\<lparr>training := True, input_buffer := Some [[[5], [6], [7]]],
     linearized_weight := Some [[1, 2, 3]], linearized_weight_shared := True\<rparr>"

definition buffered_layer :: "int layer" where
  "buffered_layer = \<lparr>kernel_size = 2, stride = 1, padding = 1, dilation = 1,
     weight = [[[1, 2]]], bias = None, training = False,
     input_buffer = Some [[[1], [2]], [[3], [4]], [[5], [6]]],
     linearized_weight = None, forward_pre_hooks = [],
     backward_hooks = [ClearLinearizedWeight], graph_hooks = [],
     linearized_weight_shared = False\<rparr>"

definition two_channel_layer :: "int layer" where
  "two_channel_layer = \<lparr>kernel_size = 3, stride = 1, padding = 2, dilation = 1,
     weight = [[[1, 2, 3], [4, 5, 6]], [[7, 8, 9], [10, 11, 12]]], bias = Some [1, 2],
     training = False, input_buffer = None, linearized_weight = None,
     forward_pre_hooks = [], backward_hooks = [ClearLinearizedWeight], graph_hooks = [],
     linearized_weight_shared = False\<rparr>"

text \<open>
  The base-class objects that \<open>__init__\<close> starts from, with no backward hook yet: the
  scenario's, and one with two input channels.
\<close>

definition scenario_base :: "int layer" where
  "scenario_base = scenario_layer\<lparr>backward_hooks := []\<rparr>"

definition two_channel_base :: "int layer" where
  "two_channel_base = two_channel_layer\<lparr>backward_hooks := []\<rparr>"

text \<open>A layer of kernel width 1 with two input channels and one output channel.\<close>

definition pointwise_layer :: "int layer" where
  "pointwise_layer = \<lparr>kernel_size = 1, stride = 1, padding = 0, dilation = 1,
     weight = [[[2], [3]]], bias = Some [1], training = False,
     input_buffer = None, linearized_weight = None, forward_pre_hooks = [],
     backward_hooks = [ClearLinearizedWeight], graph_hooks = [],
     linearized_weight_shared = False\<rparr>"

section \<open>Shapes, sums and the window lemma\<close>

lemma is_tensor2_length: "is_tensor2 n m x \<Longrightarrow> length x = n"
  by (simp add: is_tensor2_def)

lemma is_tensor2_nth: "is_tensor2 n m x \<Longrightarrow> i < n \<Longrightarrow> length (x ! i) = m"
  by (simp add: is_tensor2_def list_all_length)

lemma is_tensor2_iff: "is_tensor2 n m x \<longleftrightarrow> length x = n \<and> (\<forall>i<n. length (x ! i) = m)"
  by (auto simp: is_tensor2_def list_all_length)

lemma is_tensor3_length: "is_tensor3 n m k x \<Longrightarrow> length x = n"
  by (simp add: is_tensor3_def)

lemma is_tensor3_nth: "is_tensor3 n m k x \<Longrightarrow> i < n \<Longrightarrow> is_tensor2 m k (x ! i)"
  by (simp add: is_tensor3_def list_all_length)

lemma size1_tensor2: "is_tensor2 n m x \<Longrightarrow> 0 < n \<Longrightarrow> size1 x = m"
  by (cases x) (auto simp: is_tensor2_def size1_def)

lemma size1_tensor3: "is_tensor3 n m k x \<Longrightarrow> 0 < n \<Longrightarrow> size1 x = m"
  by (cases x) (auto simp: is_tensor3_def is_tensor2_def size1_def)

lemma size2_tensor3: "is_tensor3 n m k x \<Longrightarrow> 0 < n \<Longrightarrow> 0 < m \<Longrightarrow> size2 x = k"
  by (cases x) (auto simp: is_tensor3_def size2_def size1_tensor2)

lemma transpose2_tensor: "is_tensor2 n m x \<Longrightarrow> 0 < n \<Longrightarrow> is_tensor2 m n (transpose2 x)"
  using size1_tensor2 [of n m x] is_tensor2_length [of n m x]
  by (simp add: is_tensor2_iff [of m n] transpose2_def)

lemma transpose2_nth:
  "is_tensor2 n m x \<Longrightarrow> i < n \<Longrightarrow> j < m \<Longrightarrow> transpose2 x ! j ! i = x ! i ! j"
  by (simp add: transpose2_def size1_tensor2 is_tensor2_length)

lemma length_concat_tensor2: "is_tensor2 n m x \<Longrightarrow> length (concat x) = n * m"
proof (induction x arbitrary: n)
  case Nil
  then show ?case by (simp add: is_tensor2_def)
next
  case (Cons r x)
  then obtain n' where n: "n = Suc n'" and r: "length r = m" and x: "is_tensor2 n' m x"
    by (cases n) (auto simp: is_tensor2_def)
  from Cons.IH [OF x] n r show ?case by simp
qed

lemma dot_sum: "length xs = length ys \<Longrightarrow> dot xs ys = (\<Sum>i<length xs. xs ! i * ys ! i)"
  by (simp add: dot_def sum_list_sum_nth atLeast0LessThan)

lemma dot_append:
  "length xs = length ys \<Longrightarrow> dot (xs @ xs') (ys @ ys') = dot xs ys + dot xs' ys'"
  by (simp add: dot_def)

lemma dot_concat:
  "is_tensor2 n m x \<Longrightarrow> is_tensor2 n m y \<Longrightarrow>
   dot (concat x) (concat y) = (\<Sum>i<n. dot (x ! i) (y ! i))"
proof (induction x arbitrary: n y)
  case Nil
  then show ?case by (simp add: is_tensor2_def dot_def)
next
  case (Cons r x)
  then obtain n' where n: "n = Suc n'" and r: "length r = m" and x: "is_tensor2 n' m x"
    by (cases n) (auto simp: is_tensor2_def)
  from Cons.prems(2) n obtain s y' where y: "y = s # y'" and s: "length s = m"
    and y': "is_tensor2 n' m y'"
    by (cases y) (auto simp: is_tensor2_def)
  have "dot (concat (r # x)) (concat y) = dot r s + dot (concat x) (concat y')"
    using r s y by (simp add: dot_append)
  also have "\<dots> = dot r s + (\<Sum>i<n'. dot (x ! i) (y' ! i))"
    using Cons.IH [OF x y'] by simp
  also have "\<dots> = (\<Sum>i<Suc n'. dot ((r # x) ! i) ((s # y') ! i))"
    by (simp add: sum.lessThan_Suc_shift del: sum.lessThan_Suc)
  finally show ?case using n y by simp
qed

lemma dot_concat_sum:
  assumes "is_tensor2 n m x" "is_tensor2 n m y"
  shows "dot (concat x) (concat y) = (\<Sum>i<n. \<Sum>j<m. x ! i ! j * y ! i ! j)"
proof -
  have "dot (x ! i) (y ! i) = (\<Sum>j<m. x ! i ! j * y ! i ! j)" if "i < n" for i
    using that assms by (simp add: dot_sum is_tensor2_nth)
  then show ?thesis
    using dot_concat [OF assms] by simp
qed

lemma conv_at_sum:
  assumes "is_tensor2 nin kw wj" "length xp = nin"
  shows "conv_at wj xp s d t = (\<Sum>c<nin. \<Sum>k<kw. wj ! c ! k * xp ! c ! (t * s + k * d))"
proof -
  have len: "length wj = nin" using assms by (simp add: is_tensor2_length)
  have "conv_at wj xp s d t =
      (\<Sum>c<nin. sum_list (map (\<lambda>k. wj ! c ! k * xp ! c ! (t * s + k * d)) [0..<length (wj ! c)]))"
    using len assms(2) by (simp add: conv_at_def sum_list_sum_nth atLeast0LessThan)
  also have "\<dots> = (\<Sum>c<nin. \<Sum>k<kw. wj ! c ! k * xp ! c ! (t * s + k * d))"
    using assms(1)
    by (intro sum.cong refl) (simp add: is_tensor2_nth interv_sum_list_conv_sum_set_nat atLeast0LessThan)
  finally show ?thesis .
qed

lemma window_projection:
  assumes w: "is_tensor2 nin kw wj" and win: "is_tensor2 kw nin win"
    and xp: "length xp = nin"
    and nin: "0 < nin"
    and agree: "\<And>c k. c < nin \<Longrightarrow> k < kw \<Longrightarrow> xp ! c ! (t * s + k * d) = win ! k ! c"
  shows "conv_at wj xp s d t = dot (concat win) (concat (transpose2 wj))"
proof -
  have tw: "is_tensor2 kw nin (transpose2 wj)"
    using transpose2_tensor [OF w nin] .
  have "dot (concat win) (concat (transpose2 wj)) =
      (\<Sum>k<kw. \<Sum>c<nin. win ! k ! c * transpose2 wj ! k ! c)"
    using dot_concat_sum [OF win tw] .
  also have "\<dots> = (\<Sum>k<kw. \<Sum>c<nin. wj ! c ! k * xp ! c ! (t * s + k * d))"
  proof (intro sum.cong refl)
    fix k c assume "k \<in> {..<kw}" "c \<in> {..<nin}"
    then have k: "k < kw" and c: "c < nin" by simp_all
    have "transpose2 wj ! k ! c = wj ! c ! k"
      using transpose2_nth [OF w c k] .
    then show "win ! k ! c * transpose2 wj ! k ! c = wj ! c ! k * xp ! c ! (t * s + k * d)"
      using agree [OF c k] by (simp add: mult.commute)
  qed
  also have "\<dots> = (\<Sum>c<nin. \<Sum>k<kw. wj ! c ! k * xp ! c ! (t * s + k * d))"
    by (rule sum.swap)
  finally show ?thesis
    using conv_at_sum [OF w xp] by simp
qed

section \<open>The linearised weight\<close>

lemma concat_nth_tensor2:
  "is_tensor2 n m x \<Longrightarrow> i < n \<Longrightarrow> j < m \<Longrightarrow> concat x ! (i * m + j) = x ! i ! j"
proof (induction x arbitrary: n i)
  case Nil
  then show ?case by (simp add: is_tensor2_def)
next
  case (Cons r x)
  then obtain n' where n: "n = Suc n'" and r: "length r = m" and x: "is_tensor2 n' m x"
    by (cases n) (auto simp: is_tensor2_def)
  show ?case
  proof (cases i)
    case 0
    then show ?thesis using r Cons.prems by (simp add: nth_append)
  next
    case (Suc i')
    then have "i' < n'" using Cons.prems n by simp
    from Cons.IH [OF x this Cons.prems(3)] Suc r show ?thesis
      by (simp add: nth_append)
  qed
qed

lemma linearize_nth:
  "is_tensor3 nout nin kw w \<Longrightarrow> j < nout \<Longrightarrow> linearize w ! j = concat (transpose2 (w ! j))"
  by (simp add: linearize_def transpose12_def is_tensor3_length)

lemma linearize_tensor:
  assumes "is_tensor3 nout nin kw w" "0 < nin"
  shows "is_tensor2 nout (kw * nin) (linearize w)"
proof -
  have "length (linearize w ! j) = kw * nin" if "j < nout" for j
    using that assms
    by (simp add: linearize_nth length_concat_tensor2 [OF transpose2_tensor] is_tensor3_nth)
  moreover have "length (linearize w) = nout"
    using assms by (simp add: linearize_def transpose12_def is_tensor3_length)
  ultimately show ?thesis by (simp add: is_tensor2_iff)
qed

lemma linearize_entry:
  assumes "is_tensor3 nout nin kw w" "j < nout" "k < kw" "c < nin"
  shows "linearize w ! j ! (k * nin + c) = w ! j ! c ! k"
proof -
  have wj: "is_tensor2 nin kw (w ! j)" using assms by (simp add: is_tensor3_nth)
  have nin: "0 < nin" using assms by simp
  have "linearize w ! j ! (k * nin + c) = transpose2 (w ! j) ! k ! c"
    using assms concat_nth_tensor2 [OF transpose2_tensor [OF wj nin] \<open>k < kw\<close> \<open>c < nin\<close>]
    by (simp add: linearize_nth)
  then show ?thesis using transpose2_nth [OF wj \<open>c < nin\<close> \<open>k < kw\<close>] by simp
qed

lemma get_linearized_weight_empty:
  "linearized_weight L = None \<Longrightarrow> fst (get_linearized_weight L) = linearize (weight L)"
  by (simp add: get_linearized_weight_def Let_def)

lemma get_linearized_weight_cached:
  "linearized_weight L = Some lw \<Longrightarrow> get_linearized_weight L = (lw, L)"
  by (simp add: get_linearized_weight_def)

lemma pad_zeros_0: "pad_zeros 0 xs = xs"
  by (simp add: pad_zeros_def)

lemma linear_row_window:
  assumes w: "is_tensor3 nout nin kw w" and win: "is_tensor2 kw nin win"
    and xp: "length xp = nin" and nin: "0 < nin"
    and agree: "\<And>c k. c < nin \<Longrightarrow> k < kw \<Longrightarrow> xp ! c ! (t * s + k * d) = win ! k ! c"
  shows "linear_row (linearize w) b (concat win) =
         map (\<lambda>j. add_bias b j (conv_at (w ! j) xp s d t)) [0..<nout]"
proof -
  have len: "length (linearize w) = nout"
    using linearize_tensor [OF w nin] by (simp add: is_tensor2_length)
  have "dot (concat win) (linearize w ! j) = conv_at (w ! j) xp s d t" if "j < nout" for j
    using window_projection [OF is_tensor3_nth [OF w that] win xp nin agree]
      linearize_nth [OF w that] by simp
  then show ?thesis by (simp add: linear_row_def len)
qed

lemma conv_single_window:
  assumes w: "is_tensor3 nout nin kw w" and win: "is_tensor2 kw nin win"
    and b: "bias_ok b nout" and pos: "0 < nout" "0 < nin" "0 < kw"
  shows "F_conv1d [transpose2 win] w b 1 0 1 =
         Inr [map (\<lambda>v. [v]) (linear_row (linearize w) b (concat win))]"
proof -
  have tw: "is_tensor2 nin kw (transpose2 win)"
    using transpose2_tensor [OF win pos(3)] .
  have s2w: "size2 w = kw" using size2_tensor3 [OF w pos(1,2)] .
  have s1w: "size1 w = nin" using size1_tensor3 [OF w pos(1)] .
  have s2x: "size2 [transpose2 win] = kw"
    using size1_tensor2 [OF tw pos(2)] by (simp add: size2_def)
  have lw: "length w = nout" using w by (simp add: is_tensor3_length)
  have pad: "map (pad_zeros 0) (transpose2 win) = transpose2 win"
    by (simp add: pad_zeros_0 cong: map_cong)
  have agree: "transpose2 win ! c ! (0 * 1 + k * 1) = win ! k ! c" if "c < nin" "k < kw" for c k
    using transpose2_nth [OF win that(2,1)] by simp
  have row: "linear_row (linearize w) b (concat win) =
      map (\<lambda>j. add_bias b j (conv_at (w ! j) (transpose2 win) 1 1 0)) [0..<nout]"
    using linear_row_window [OF w win is_tensor2_length [OF tw] pos(2) agree] by simp
  have len: "conv_out_len kw kw (Suc 0) 0 (Suc 0) = Suc 0"
    using pos(3) by (simp add: conv_out_len_def)
  show ?thesis
    using pos b
    by (simp add: F_conv1d_def Let_def s2w s1w s2x lw pad len row is_tensor2_length [OF tw] comp_def)
qed

lemma linear_single_window:
  assumes w: "is_tensor3 nout nin kw w" and win: "is_tensor2 kw nin win"
    and b: "bias_ok b nout" and pos: "0 < nout" "0 < nin"
  shows "F_linear [concat win] (linearize w) b = Inr [linear_row (linearize w) b (concat win)]"
proof -
  have lt: "is_tensor2 nout (kw * nin) (linearize w)"
    using linearize_tensor [OF w pos(2)] .
  show ?thesis
    using b size1_tensor2 [OF lt pos(1)] is_tensor2_length [OF lt] length_concat_tensor2 [OF win]
    by (simp add: F_linear_def)
qed

text \<open>
  C3. For a weight of shape (out, in, kw), \<open>_get_linearized_weight\<close> on an empty cache
  yields the weight with its last two axes transposed and every output channel
  flattened: a matrix of shape (out, kw * in) whose entry \<open>k * in + c\<close> of row \<open>j\<close> is
  \<open>weight[j][c][k]\<close>. For every window of \<open>kw\<close> input frames, the linear projection of
  the flattened window by this matrix (and the bias) is the one output frame that the
  convolution of the weight over the window gives.
\<close>

theorem linearized_weight_is_convolution:
  assumes "is_tensor3 nout nin kw (weight L)" and "0 < nout" and "0 < nin" and "0 < kw"
    and "linearized_weight L = None"
    and "is_tensor2 kw nin win" and "bias_ok b nout"
  shows "fst (get_linearized_weight L) = linearize (weight L) \<and>
         linearize (weight L) = map concat (transpose12 (weight L)) \<and>
         is_tensor2 nout (kw * nin) (linearize (weight L)) \<and>
         (\<forall>j<nout. \<forall>k<kw. \<forall>c<nin. linearize (weight L) ! j ! (k * nin + c) = weight L ! j ! c ! k) \<and>
         (\<exists>y. F_linear [concat win] (fst (get_linearized_weight L)) b = Inr [y] \<and>
              F_conv1d [transpose2 win] (weight L) b 1 0 1 = Inr [map (\<lambda>v. [v]) y])"
proof -
  have g: "fst (get_linearized_weight L) = linearize (weight L)"
    using assms(5) by (simp add: get_linearized_weight_empty)
  have "\<exists>y. F_linear [concat win] (linearize (weight L)) b = Inr [y] \<and>
      F_conv1d [transpose2 win] (weight L) b 1 0 1 = Inr [map (\<lambda>v. [v]) y]"
    using linear_single_window [OF assms(1,6,7,2,3)] conv_single_window [OF assms(1,6,7,2,3,4)]
    by blast
  then show ?thesis
    using g linearize_tensor [OF assms(1,3)] linearize_entry [OF assms(1)]
    by (simp add: linearize_def)
qed

theorem linearized_weight_is_convolution_witness:
  "is_tensor3 2 2 3 (weight two_channel_layer) \<and>
   linearized_weight two_channel_layer = None \<and>
   is_tensor2 3 2 [[1, 0], [0, 1], [2, 2 :: int]] \<and>
   linearize (weight two_channel_layer) = [[1, 4, 2, 5, 3, 6], [7, 10, 8, 11, 9, 12]] \<and>
   F_linear [concat [[1, 0], [0, 1], [2, 2]]] (fst (get_linearized_weight two_channel_layer))
     (Some [1, 2]) = Inr [[25, 62]] \<and>
   F_conv1d [transpose2 [[1, 0], [0, 1], [2, 2]]] (weight two_channel_layer) (Some [1, 2]) 1 0 1
     = Inr [[[25], [62]]]"
proof -
  have h: "is_tensor3 2 2 3 (weight two_channel_layer)"
    "linearized_weight two_channel_layer = None"
    "is_tensor2 3 2 [[1, 0], [0, 1], [2, 2 :: int]]"
    "bias_ok (Some [1, 2 :: int]) 2"
    by (simp_all add: two_channel_layer_def is_tensor3_def is_tensor2_def bias_ok_def)
  have lin: "linearize (weight two_channel_layer) = [[1, 4, 2, 5, 3, 6], [7, 10, 8, 11, 9, 12]]"
    by code_simp
  have out: "F_linear [concat [[1, 0], [0, 1], [2, 2]]] (fst (get_linearized_weight two_channel_layer))
     (Some [1, 2]) = Inr [[25, 62]]"
    by code_simp
  have pos: "0 < (2::nat)" "0 < (3::nat)" by simp_all
  from linearized_weight_is_convolution [OF h(1) pos(1) pos(1) pos(2) h(2) h(3) h(4)]
  have "\<exists>y. F_linear [concat [[1, 0], [0, 1], [2, 2]]] (fst (get_linearized_weight two_channel_layer)) (Some [1, 2]) = Inr [y] \<and>
     F_conv1d [transpose2 [[1, 0], [0, 1], [2, 2]]] (weight two_channel_layer) (Some [1, 2]) 1 0 1
       = Inr [map (\<lambda>v. [v]) y]"
    by blast
  with out have "F_conv1d [transpose2 [[1, 0], [0, 1], [2, 2]]] (weight two_channel_layer) (Some [1, 2]) 1 0 1
     = Inr [[[25], [62]]]"
    by auto
  with h lin out show ?thesis by simp
qed

section \<open>The training guard\<close>

lemma incremental_forward_training:
  "training L \<Longrightarrow> incremental_forward L x = (L, Inl InferenceOnly)"
  by (simp add: incremental_forward_def)

lemma incremental_forward_eval_error:
  "\<not> training L \<Longrightarrow> snd (incremental_forward L x) \<noteq> Inl InferenceOnly"
  by (auto simp: incremental_forward_def Let_def F_linear_def
      split: prod.splits sum.splits if_splits)

text \<open>
  C4. \<open>incremental_forward\<close> raises the inference-only error exactly when the layer is in
  training mode, and then the layer is returned as it was given: neither the input buffer
  nor the linearised-weight cache has been read or written.
\<close>

theorem incremental_forward_guard:
  "(snd (incremental_forward L x) = Inl InferenceOnly \<longleftrightarrow> training L) \<and>
   (training L \<longrightarrow> incremental_forward L x = (L, Inl InferenceOnly))"
  using incremental_forward_training [of L x] incremental_forward_eval_error [of L x]
  by auto

theorem incremental_forward_guard_witness:
  "training training_layer \<and>
   incremental_forward training_layer [[[1]]] = (training_layer, Inl InferenceOnly) \<and>
   \<not> training scenario_layer \<and>
   snd (incremental_forward scenario_layer [[[1]]]) \<noteq> Inl InferenceOnly"
  using incremental_forward_guard [of training_layer "[[[1]]]"]
    incremental_forward_guard [of scenario_layer "[[[1]]]"]
  by (simp add: training_layer_def scenario_layer_def)

section \<open>One incremental step\<close>

lemma run_forward_pre_hooks_fields [simp]:
  "kernel_size (run_forward_pre_hooks L) = kernel_size L"
  "stride (run_forward_pre_hooks L) = stride L"
  "padding (run_forward_pre_hooks L) = padding L"
  "dilation (run_forward_pre_hooks L) = dilation L"
  "training (run_forward_pre_hooks L) = training L"
  "input_buffer (run_forward_pre_hooks L) = input_buffer L"
  "linearized_weight (run_forward_pre_hooks L) = linearized_weight L"
  "forward_pre_hooks (run_forward_pre_hooks L) = forward_pre_hooks L"
  "backward_hooks (run_forward_pre_hooks L) = backward_hooks L"
  "graph_hooks (run_forward_pre_hooks L) = graph_hooks L"
  by (simp_all add: run_forward_pre_hooks_def split: prod.splits)

lemma get_linearized_weight_fields [simp]:
  "kernel_size (snd (get_linearized_weight L)) = kernel_size L"
  "stride (snd (get_linearized_weight L)) = stride L"
  "padding (snd (get_linearized_weight L)) = padding L"
  "dilation (snd (get_linearized_weight L)) = dilation L"
  "weight (snd (get_linearized_weight L)) = weight L"
  "bias (snd (get_linearized_weight L)) = bias L"
  "training (snd (get_linearized_weight L)) = training L"
  "input_buffer (snd (get_linearized_weight L)) = input_buffer L"
  "forward_pre_hooks (snd (get_linearized_weight L)) = forward_pre_hooks L"
  "backward_hooks (snd (get_linearized_weight L)) = backward_hooks L"
  "graph_hooks (snd (get_linearized_weight L)) = graph_hooks L"
  "linearized_weight (snd (get_linearized_weight L)) = Some (fst (get_linearized_weight L))"
  by (simp_all add: get_linearized_weight_def Let_def split: option.splits)

lemma get_linearized_weight_shared_update [simp]:
  "fst (get_linearized_weight (L\<lparr>linearized_weight_shared := s\<rparr>)) = fst (get_linearized_weight L)"
  by (simp add: get_linearized_weight_def Let_def split: option.splits)

text \<open>The buffer that a call in inference mode works on, before the new frame is written.\<close>

lemma incremental_forward_wide:
  assumes "\<not> training L" "kernel_size L > 1"
  shows "incremental_forward L x =
     (let L2 = snd (get_linearized_weight (run_forward_pre_hooks L));
          w = fst (get_linearized_weight (run_forward_pre_hooks L));
          buf = (case input_buffer L of
                   None \<Rightarrow> new_buffer (length x) (kernel_size L) (size2 x)
                 | Some old \<Rightarrow> shift_buffer old)
      in if append_ok buf x
         then (L2\<lparr>input_buffer := Some (append_input buf x)\<rparr>,
               case F_linear (map concat (append_input buf x)) w (bias L2) of
                 Inl e \<Rightarrow> Inl e
               | Inr y \<Rightarrow> Inr (map (\<lambda>r. [r]) y))
         else (L2\<lparr>input_buffer := Some buf\<rparr>, Inl TensorError))"
  using assms
  by (simp add: incremental_forward_def Let_def case_prod_beta cong: option.case_cong)

lemma incremental_forward_narrow:
  assumes "\<not> training L" "\<not> kernel_size L > 1"
  shows "incremental_forward L x =
     (let L2 = snd (get_linearized_weight (run_forward_pre_hooks L));
          w = fst (get_linearized_weight (run_forward_pre_hooks L))
      in (L2, case F_linear (map concat x) w (bias L2) of
                Inl e \<Rightarrow> Inl e
              | Inr y \<Rightarrow> Inr (map (\<lambda>r. [r]) y)))"
  using assms
  by (simp add: incremental_forward_def Let_def case_prod_beta cong: option.case_cong)

lemma incremental_forward_fields [simp]:
  "kernel_size (fst (incremental_forward L x)) = kernel_size L"
  "stride (fst (incremental_forward L x)) = stride L"
  "padding (fst (incremental_forward L x)) = padding L"
  "dilation (fst (incremental_forward L x)) = dilation L"
  "training (fst (incremental_forward L x)) = training L"
  "forward_pre_hooks (fst (incremental_forward L x)) = forward_pre_hooks L"
  "backward_hooks (fst (incremental_forward L x)) = backward_hooks L"
  "graph_hooks (fst (incremental_forward L x)) = graph_hooks L"
  by (cases "training L"; cases "kernel_size L > 1";
      simp add: incremental_forward_training incremental_forward_wide incremental_forward_narrow Let_def)+

lemma size2_last_frames:
  "is_tensor3 bsz T nin x \<Longrightarrow> 0 < T \<Longrightarrow> size2 (map (\<lambda>r. [last r]) x) = size2 x"
  by (cases x) (auto simp: size2_def size1_def is_tensor3_def is_tensor2_def list_all_iff
      split: list.splits)

lemma append_input_last_frames:
  "append_input buf (map (\<lambda>r. [last r]) x) = append_input buf x"
  by (simp add: append_input_def zip_map2 comp_def case_prod_beta)

lemma append_ok_iff:
  "append_ok buf x \<longleftrightarrow>
     length buf = length x \<and>
     (\<forall>i<length x. buf ! i \<noteq> [] \<and> x ! i \<noteq> [] \<and> length (last (buf ! i)) = length (last (x ! i)))"
  by (auto simp: append_ok_def list_all_length)

lemma is_tensor3_row_length: "is_tensor3 bsz T nin x \<Longrightarrow> i < bsz \<Longrightarrow> length (x ! i) = T"
  by (simp add: is_tensor3_def list_all_length is_tensor2_def)

lemma append_ok_last_frames:
  assumes "is_tensor3 bsz T nin x" "0 < T"
  shows "append_ok buf (map (\<lambda>r. [last r]) x) = append_ok buf x"
proof -
  have "x ! i \<noteq> []" if "i < length x" for i
    using is_tensor3_row_length [OF assms(1), of i] that assms by (auto simp: is_tensor3_def)
  then show ?thesis by (auto simp: append_ok_iff)
qed

text \<open>
  C10. With kernel width above 1, \<open>incremental_forward\<close> uses of its input only the last
  time frame of every batch row: on an input with one or more time steps, the returned
  layer and the output are those of the call on the last frames alone.
\<close>

theorem incremental_forward_last_frame_only:
  assumes "kernel_size L > 1" and "is_tensor3 bsz T nin x" and "0 < T"
  shows "incremental_forward L x = incremental_forward L (map (\<lambda>r. [last r]) x)"
proof (cases "training L")
  case True
  then show ?thesis by (simp add: incremental_forward_training)
next
  case False
  show ?thesis
    using assms(1)
    by (simp add: incremental_forward_wide [OF False assms(1)]
        size2_last_frames [OF assms(2,3)] append_ok_last_frames [OF assms(2,3)]
        append_input_last_frames Let_def cong: option.case_cong)
qed

theorem incremental_forward_last_frame_only_witness:
  "kernel_size two_channel_layer > 1 \<and>
   is_tensor3 2 2 2 [[[1, 2], [3, 4]], [[5, 6], [7, 8 :: int]]] \<and>
   incremental_forward two_channel_layer [[[1, 2], [3, 4]], [[5, 6], [7, 8]]] =
     incremental_forward two_channel_layer [[[3, 4]], [[7, 8]]]"
proof -
  have h: "kernel_size two_channel_layer > 1"
    "is_tensor3 2 2 2 [[[1, 2], [3, 4]], [[5, 6], [7, 8 :: int]]]" "0 < (2::nat)"
    by (simp_all add: two_channel_layer_def is_tensor3_def is_tensor2_def)
  from incremental_forward_last_frame_only [OF h] h show ?thesis by simp
qed

section \<open>The rolling buffer\<close>

lemma is_tensor3_iff:
  "is_tensor3 n m k x \<longleftrightarrow> length x = n \<and> (\<forall>i<n. is_tensor2 m k (x ! i))"
  by (auto simp: is_tensor3_def list_all_length)

lemma is_tensor3_last_frame:
  assumes a: "is_tensor3 bsz T nin x" "0 < T" "i < bsz"
  shows "x ! i \<noteq> []" and "length (last (x ! i)) = nin"
proof -
  from a have t: "is_tensor2 T nin (x ! i)" by (simp add: is_tensor3_nth)
  then show ne: "x ! i \<noteq> []" using a(2) by (auto simp: is_tensor2_def)
  then have "last (x ! i) = x ! i ! (T - 1)"
    using t by (simp add: last_conv_nth is_tensor2_length)
  then show "length (last (x ! i)) = nin"
    using is_tensor2_nth [OF t, of "T - 1"] a(2) by simp
qed

lemma new_buffer_append_ok:
  assumes x: "is_tensor3 bsz T nin x" and pos: "0 < T" "0 < kw"
  shows "append_ok (new_buffer bsz kw nin) x"
proof -
  have len: "length x = bsz" using x by (simp add: is_tensor3_length)
  have "new_buffer bsz kw nin ! i \<noteq> [] \<and> x ! i \<noteq> [] \<and>
      length (last (new_buffer bsz kw nin ! i)) = length (last (x ! i))" if "i < bsz" for i
    using is_tensor3_last_frame [OF x pos(1) that] pos(2) that
    by (simp add: new_buffer_def)
  then show ?thesis using len by (auto simp add: append_ok_iff new_buffer_def)
qed

lemma new_buffer_append_input:
  assumes x: "is_tensor3 bsz T nin x" and pos: "0 < kw"
  shows "append_input (new_buffer bsz kw nin) x =
         map (\<lambda>xr. replicate (kw - 1) (replicate nin 0) @ [last xr]) x"
proof -
  have len: "length x = bsz" using x by (simp add: is_tensor3_length)
  have bl: "butlast (replicate kw z) = replicate (kw - 1) z" for z :: "'a list"
    by (simp add: butlast_conv_take)
  show ?thesis
  proof (rule nth_equalityI)
    show "length (append_input (new_buffer bsz kw nin) x) =
        length (map (\<lambda>xr. replicate (kw - 1) (replicate nin 0) @ [last xr]) x)"
      using len by (simp add: append_input_def new_buffer_def)
  next
    fix i assume "i < length (append_input (new_buffer bsz kw nin) x)"
    then have i: "i < bsz" using len by (simp add: append_input_def new_buffer_def)
    then show "append_input (new_buffer bsz kw nin) x ! i =
        map (\<lambda>xr. replicate (kw - 1) (replicate nin 0) @ [last xr]) x ! i"
      using len by (simp add: append_input_def new_buffer_def bl)
  qed
qed

lemma shift_buffer_nth:
  "i < length buf \<Longrightarrow> buf ! i \<noteq> [] \<Longrightarrow> shift_buffer buf ! i = tl (buf ! i) @ [last (buf ! i)]"
  by (cases "buf ! i") (simp_all add: shift_buffer_def)

lemma length_shift_buffer [simp]: "length (shift_buffer buf) = length buf"
  by (simp add: shift_buffer_def)

lemma shift_buffer_append_ok:
  assumes buf: "is_tensor3 bsz kw nin buf" and x: "is_tensor3 bsz T nin x"
    and pos: "0 < T" "0 < kw"
  shows "append_ok (shift_buffer buf) x"
proof -
  have len: "length x = bsz" "length buf = bsz"
    using x buf by (simp_all add: is_tensor3_length)
  have "shift_buffer buf ! i \<noteq> [] \<and> x ! i \<noteq> [] \<and>
      length (last (shift_buffer buf ! i)) = length (last (x ! i))" if "i < bsz" for i
    using is_tensor3_last_frame [OF x pos(1) that] is_tensor3_last_frame [OF buf pos(2) that]
      that len
    by (simp add: shift_buffer_nth)
  then show ?thesis using len by (auto simp add: append_ok_iff)
qed

lemma shift_buffer_append_input:
  assumes buf: "is_tensor3 bsz kw nin buf" and x: "is_tensor3 bsz T nin x"
    and pos: "0 < kw"
  shows "append_input (shift_buffer buf) x = map2 (\<lambda>r xr. tl r @ [last xr]) buf x"
proof (rule nth_equalityI)
  have len: "length x = bsz" "length buf = bsz"
    using x buf by (simp_all add: is_tensor3_length)
  show "length (append_input (shift_buffer buf) x) = length (map2 (\<lambda>r xr. tl r @ [last xr]) buf x)"
    by (simp add: append_input_def)
  fix i assume "i < length (append_input (shift_buffer buf) x)"
  then have i: "i < bsz" using len by (simp add: append_input_def)
  have "shift_buffer buf ! i = tl (buf ! i) @ [last (buf ! i)]"
    using is_tensor3_last_frame(1) [OF buf pos i] i len by (simp add: shift_buffer_nth)
  then show "append_input (shift_buffer buf) x ! i = map2 (\<lambda>r xr. tl r @ [last xr]) buf x ! i"
    using i len by (simp add: append_input_def)
qed


lemma first_step_buffer:
  assumes "\<not> training L" "kernel_size L > 1" "input_buffer L = None"
    and x: "is_tensor3 bsz T nin x" and pos: "0 < bsz" "0 < T"
  shows "input_buffer (fst (incremental_forward L x)) =
         Some (map (\<lambda>xr. replicate (kernel_size L - 1) (replicate nin 0) @ [last xr]) x)"
proof -
  have kw: "0 < kernel_size L" using assms(2) by simp
  have len: "length x = bsz" using x by (simp add: is_tensor3_length)
  have s2: "size2 x = nin" using size2_tensor3 [OF x pos] .
  show ?thesis
    using new_buffer_append_ok [OF x pos(2) kw] new_buffer_append_input [OF x kw] assms(3)
    by (simp add: incremental_forward_wide [OF assms(1,2)] Let_def s2 len)
qed

lemma next_step_buffer:
  assumes "\<not> training L" "kernel_size L > 1" "input_buffer L = Some buf"
    and buf: "is_tensor3 bsz (kernel_size L) nin buf"
    and x: "is_tensor3 bsz T nin x" and pos: "0 < T"
  shows "input_buffer (fst (incremental_forward L x)) =
         Some (map2 (\<lambda>r xr. tl r @ [last xr]) buf x)"
proof -
  have kw: "0 < kernel_size L" using assms(2) by simp
  show ?thesis
    using shift_buffer_append_ok [OF buf x pos kw] shift_buffer_append_input [OF buf x kw] assms(3)
    by (simp add: incremental_forward_wide [OF assms(1,2)] Let_def)
qed

lemma steps_fields [simp]:
  "training (foldl (\<lambda>L x. fst (incremental_forward L x)) L xs) = training L"
  "kernel_size (foldl (\<lambda>L x. fst (incremental_forward L x)) L xs) = kernel_size L"
  by (induction xs arbitrary: L) simp_all

lemma window_tensor:
  assumes "is_tensor2 kw nin r" "0 < kw" "length f = nin"
  shows "is_tensor2 kw nin (tl r @ [f])"
  using assms by (cases r) (auto simp: is_tensor2_def)

lemma first_window_tensor:
  assumes "0 < kw" "length f = nin"
  shows "is_tensor2 kw nin (replicate (kw - 1) (replicate nin z) @ [f])"
  using assms by (auto simp: is_tensor2_def list_all_iff)

lemma slide_window: "m < length ys \<Longrightarrow> tl (drop m ys) @ [f] = drop (Suc m) (ys @ [f])"
  by (simp add: drop_Suc drop_tl)

lemma buffer_after_steps:
  fixes L :: "'a::comm_semiring_0 layer"
  assumes L: "\<not> training L" "kernel_size L > 1" "input_buffer L = None"
    and pos: "0 < bsz" "0 < T"
    and xs: "list_all (is_tensor3 bsz T nin) xs" "xs \<noteq> []"
  shows "\<exists>buf. input_buffer (foldl (\<lambda>L x. fst (incremental_forward L x)) L xs) = Some buf \<and>
           is_tensor3 bsz (kernel_size L) nin buf \<and>
           (\<forall>n<bsz. buf ! n =
              drop (length xs) (replicate (kernel_size L) (replicate nin 0) @ map (\<lambda>x. last (x ! n)) xs))"
  using xs
proof (induction xs rule: rev_induct)
  case Nil
  then show ?case by simp
next
  case (snoc x xs)
  let ?kw = "kernel_size L"
  let ?z = "replicate nin (0::'a)"
  let ?L = "foldl (\<lambda>L x. fst (incremental_forward L x)) L xs"
  have kw: "0 < ?kw" using L(2) by simp
  have x: "is_tensor3 bsz T nin x" and xs': "list_all (is_tensor3 bsz T nin) xs"
    using snoc.prems(1) by simp_all
  have len: "length x = bsz" using x by (simp add: is_tensor3_length)
  have lf: "length (last (x ! n)) = nin" if "n < bsz" for n
    using is_tensor3_last_frame(2) [OF x pos(2) that] .
  have L': "\<not> training ?L" "kernel_size ?L > 1" using L by simp_all
  show ?case
  proof (cases "xs = []")
    case True
    have buf: "input_buffer (fst (incremental_forward L x)) =
        Some (map (\<lambda>xr. replicate (?kw - 1) ?z @ [last xr]) x)"
      using first_step_buffer [OF L x pos] .
    have "is_tensor2 ?kw nin (map (\<lambda>xr. replicate (?kw - 1) ?z @ [last xr]) x ! n)"
      if "n < bsz" for n
      using first_window_tensor [OF kw lf [OF that], of 0] that len by simp
    then have "is_tensor3 bsz ?kw nin (map (\<lambda>xr. replicate (?kw - 1) ?z @ [last xr]) x)"
      using len by (simp add: is_tensor3_iff)
    moreover have "map (\<lambda>xr. replicate (?kw - 1) ?z @ [last xr]) x ! n =
        drop (length (xs @ [x])) (replicate ?kw ?z @ map (\<lambda>x. last (x ! n)) (xs @ [x]))"
      if "n < bsz" for n
      using that len True kw by (cases ?kw) simp_all
    ultimately show ?thesis using buf True by simp
  next
    case False
    from snoc.IH [OF xs' False] obtain buf where
      b: "input_buffer ?L = Some buf" and bt: "is_tensor3 bsz ?kw nin buf"
      and bn: "\<And>n. n < bsz \<Longrightarrow>
        buf ! n = drop (length xs) (replicate ?kw ?z @ map (\<lambda>x. last (x ! n)) xs)"
      by blast
    have bt': "is_tensor3 bsz (kernel_size ?L) nin buf" using bt by simp
    have lb: "length buf = bsz" using bt by (simp add: is_tensor3_length)
    have new: "input_buffer (fst (incremental_forward ?L x)) =
        Some (map2 (\<lambda>r xr. tl r @ [last xr]) buf x)"
      using next_step_buffer [OF L' b bt' x pos(2)] .
    have row: "map2 (\<lambda>r xr. tl r @ [last xr]) buf x ! n = tl (buf ! n) @ [last (x ! n)]"
      if "n < bsz" for n
      using that len lb by simp
    have "is_tensor2 ?kw nin (map2 (\<lambda>r xr. tl r @ [last xr]) buf x ! n)" if "n < bsz" for n
      using window_tensor [OF is_tensor3_nth [OF bt that] kw lf [OF that]] row [OF that] by simp
    then have "is_tensor3 bsz ?kw nin (map2 (\<lambda>r xr. tl r @ [last xr]) buf x)"
      using len lb by (simp add: is_tensor3_iff)
    moreover have "map2 (\<lambda>r xr. tl r @ [last xr]) buf x ! n =
        drop (length (xs @ [x])) (replicate ?kw ?z @ map (\<lambda>x. last (x ! n)) (xs @ [x]))"
      if "n < bsz" for n
    proof -
      let ?ys = "replicate ?kw ?z @ map (\<lambda>x. last (x ! n)) xs"
      have "length xs < length ?ys" using kw by simp
      then have "tl (drop (length xs) ?ys) @ [last (x ! n)] =
          drop (Suc (length xs)) (?ys @ [last (x ! n)])"
        by (rule slide_window)
      then have "tl (buf ! n) @ [last (x ! n)] = drop (Suc (length xs)) (?ys @ [last (x ! n)])"
        unfolding bn [OF that] .
      also have "\<dots> = drop (length (xs @ [x]))
          (replicate ?kw ?z @ map (\<lambda>x. last (x ! n)) (xs @ [x]))"
        by simp
      finally show ?thesis using row [OF that] by simp
    qed
    ultimately show ?thesis using new by simp
  qed
qed

text \<open>
  C6. In inference mode and with kernel width above 1, a call of \<open>incremental_forward\<close>
  on an input of shape (batch, time, in): without a buffer, leaves a buffer whose batch
  rows are \<open>kw - 1\<close> zero frames followed by the row's newest input frame; with a buffer
  of shape (batch, kw, in), leaves every row without its oldest frame and with the newest
  input frame at the end. So after any number of calls from an empty buffer, every row
  holds the last \<open>kw\<close> frames of \<open>kw\<close> zero frames followed by the frames fed so far.
\<close>

theorem incremental_forward_updates_buffer:
  fixes L :: "'a::comm_semiring_0 layer"
  assumes "\<not> training L" and "kernel_size L > 1"
    and "is_tensor3 bsz T nin x" and "0 < bsz" and "0 < T"
  shows "(input_buffer L = None \<longrightarrow>
            input_buffer (fst (incremental_forward L x)) =
              Some (map (\<lambda>xr. replicate (kernel_size L - 1) (replicate nin 0) @ [last xr]) x)) \<and>
         (\<forall>buf. input_buffer L = Some buf \<and> is_tensor3 bsz (kernel_size L) nin buf \<longrightarrow>
            input_buffer (fst (incremental_forward L x)) =
              Some (map2 (\<lambda>r xr. tl r @ [last xr]) buf x)) \<and>
         (\<forall>xs. input_buffer L = None \<and> xs \<noteq> [] \<and> list_all (is_tensor3 bsz T nin) xs \<longrightarrow>
            (\<exists>buf. input_buffer (foldl (\<lambda>L x. fst (incremental_forward L x)) L xs) = Some buf \<and>
               is_tensor3 bsz (kernel_size L) nin buf \<and>
               (\<forall>n<bsz. buf ! n =
                  drop (length xs)
                    (replicate (kernel_size L) (replicate nin 0) @ map (\<lambda>x. last (x ! n)) xs))))"
  using first_step_buffer [OF assms(1,2) _ assms(3,4,5)]
    next_step_buffer [OF assms(1,2) _ _ assms(3,5)]
    buffer_after_steps [OF assms(1,2) _ assms(4,5)]
  by blast

theorem incremental_forward_updates_buffer_witness:
  "\<not> training two_channel_layer \<and> kernel_size two_channel_layer > 1 \<and>
   is_tensor3 2 1 2 [[[3, 4]], [[7, 8 :: int]]] \<and>
   input_buffer two_channel_layer = None \<and>
   input_buffer (fst (incremental_forward two_channel_layer [[[3, 4]], [[7, 8]]])) =
     Some [[[0, 0], [0, 0], [3, 4]], [[0, 0], [0, 0], [7, 8]]] \<and>
   input_buffer (fst (incremental_forward
       (two_channel_layer\<lparr>input_buffer := Some [[[0, 0], [0, 0], [3, 4]], [[0, 0], [0, 0], [7, 8]]]\<rparr>)
       [[[1, 1]], [[2, 2]]])) =
     Some [[[0, 0], [3, 4], [1, 1]], [[0, 0], [7, 8], [2, 2]]] \<and>
   (\<exists>buf. input_buffer (foldl (\<lambda>L x. fst (incremental_forward L x)) two_channel_layer
        [[[[3, 4]], [[7, 8]]], [[[1, 1]], [[2, 2]]], [[[5, 5]], [[6, 6]]], [[[9, 9]], [[0, 0]]]])
        = Some buf \<and>
      buf ! 0 = [[1, 1], [5, 5], [9, 9]] \<and> buf ! 1 = [[2, 2], [6, 6], [0, 0]])"
proof -
  let ?L = "two_channel_layer"
  let ?B = "[[[0, 0], [0, 0], [3, 4]], [[0, 0], [0, 0], [7, 8 :: int]]]"
  let ?L' = "two_channel_layer\<lparr>input_buffer := Some ?B\<rparr>"
  let ?xs = "[[[[3, 4]], [[7, 8]]], [[[1, 1]], [[2, 2]]], [[[5, 5]], [[6, 6]]], [[[9, 9]], [[0, 0 :: int]]]]"
  have h: "\<not> training ?L" "kernel_size ?L > 1" "is_tensor3 2 1 2 [[[3, 4]], [[7, 8 :: int]]]"
    "0 < (2::nat)" "0 < (1::nat)"
    and n: "input_buffer ?L = None"
    by (simp_all add: two_channel_layer_def is_tensor3_def is_tensor2_def)
  have h': "\<not> training ?L'" "kernel_size ?L' > 1" "is_tensor3 2 1 2 [[[1, 1]], [[2, 2 :: int]]]"
    and b: "input_buffer ?L' = Some ?B" "is_tensor3 2 (kernel_size ?L') 2 ?B"
    by (simp_all add: two_channel_layer_def is_tensor3_def is_tensor2_def)
  have xs: "?xs \<noteq> []" "list_all (is_tensor3 2 1 2) ?xs"
    by (simp_all add: is_tensor3_def is_tensor2_def)
  have k: "kernel_size ?L = 3" by (simp add: two_channel_layer_def)
  have two: "(n < (2::nat)) = (n = 0 \<or> n = 1)" for n by auto
  from incremental_forward_updates_buffer [OF h] n
  have r1: "input_buffer (fst (incremental_forward ?L [[[3, 4]], [[7, 8]]])) = Some ?B"
    by (simp add: k numeral_3_eq_3 numeral_2_eq_2)
  from incremental_forward_updates_buffer [OF h'(1,2,3) h(4,5)] b
  have r2: "input_buffer (fst (incremental_forward ?L' [[[1, 1]], [[2, 2]]])) =
      Some [[[0, 0], [3, 4], [1, 1]], [[0, 0], [7, 8], [2, 2]]]"
    by simp
  from incremental_forward_updates_buffer [OF h] n xs
  obtain buf where "input_buffer (foldl (\<lambda>L x. fst (incremental_forward L x)) ?L ?xs) = Some buf"
    and "\<forall>n<2. buf ! n = drop (length ?xs)
         (replicate (kernel_size ?L) (replicate 2 0) @ map (\<lambda>x. last (x ! n)) ?xs)"
    by blast
  then have r3: "\<exists>buf. input_buffer (foldl (\<lambda>L x. fst (incremental_forward L x)) ?L ?xs) = Some buf \<and>
      buf ! 0 = [[1, 1], [5, 5], [9, 9]] \<and> buf ! 1 = [[2, 2], [6, 6], [0, 0]]"
    by (simp add: k two numeral_3_eq_3 numeral_2_eq_2)
  from h n r1 r2 r3 show ?thesis by blast
qed

section \<open>Batch mode\<close>

lemma transpose12_tensor:
  assumes "is_tensor3 bsz T nin x" "0 < T"
  shows "is_tensor3 bsz nin T (transpose12 x)"
  using assms transpose2_tensor
  by (auto simp: is_tensor3_iff transpose12_def)

lemma size1_table: "0 < n \<Longrightarrow> size1 (map (\<lambda>j. map (f j) [0..<m]) [0..<n]) = m"
  by (simp add: size1_def upt_conv_Cons)

lemma transpose2_table:
  "0 < n \<Longrightarrow> transpose2 (map (\<lambda>j. map (f j) [0..<m]) [0..<n]) =
                map (\<lambda>t. map (\<lambda>j. f j t) [0..<n]) [0..<m]"
  by (simp add: transpose2_def size1_table)

lemma map_by_index: "map f xs = map (\<lambda>n. f (xs ! n)) [0..<length xs]"
  by (rule nth_equalityI) simp_all

lemma F_conv1d_transposed:
  fixes w :: "'a::comm_semiring_0 tensor3"
  assumes w: "is_tensor3 nout nin kw w" and b: "bias_ok b nout"
    and x: "is_tensor3 bsz T nin x"
    and pos: "0 < bsz" "0 < T" "0 < nin" "0 < nout" "0 < kw" "0 < s" "0 < d"
    and fit: "d * (kw - 1) + 1 \<le> T + 2 * p"
  shows "F_conv1d (transpose12 x) w b s p d =
     Inr (map (\<lambda>xn. map (\<lambda>j. map (\<lambda>t. add_bias b j
                 (conv_at (w ! j) (map (pad_zeros p) (transpose2 xn)) s d t))
               [0..<conv_out_len T kw s p d]) [0..<nout]) x)"
proof -
  have tx: "is_tensor3 bsz nin T (transpose12 x)"
    using transpose12_tensor [OF x pos(2)] .
  have s2w: "size2 w = kw" using size2_tensor3 [OF w pos(4,3)] .
  have s1w: "size1 w = nin" using size1_tensor3 [OF w pos(4)] .
  have s2x: "size2 (transpose12 x) = T" using size2_tensor3 [OF tx pos(1,3)] .
  have lw: "length w = nout" using w by (simp add: is_tensor3_length)
  have rows: "list_all (\<lambda>xn. length xn = nin) (transpose12 x)"
    using tx by (auto simp: is_tensor3_def is_tensor2_def list_all_iff)
  show ?thesis
    using pos fit b rows
    by (simp add: F_conv1d_def s2w s1w s2x lw Let_def) (simp add: transpose12_def comp_def)
qed

lemma forward_conv_as_linear:
  fixes L :: "'a::comm_semiring_0 layer"
  assumes w: "is_tensor3 nout nin kw (weight L)" and b: "bias_ok (bias L) nout"
    and x: "is_tensor3 bsz T nin x"
    and pos: "0 < bsz" "0 < T" "0 < nin" "0 < nout" "0 < kw" "0 < stride L" "0 < dilation L"
    and fit: "dilation L * (kw - 1) + 1 \<le> T + 2 * padding L"
    and lo: "lo = conv_out_len T kw (stride L) (padding L) (dilation L)"
    and win: "\<And>n t. n < bsz \<Longrightarrow> t < lo \<Longrightarrow> is_tensor2 kw nin (win n t)"
    and agree: "\<And>n t c k. n < bsz \<Longrightarrow> t < lo \<Longrightarrow> c < nin \<Longrightarrow> k < kw \<Longrightarrow>
        pad_zeros (padding L) (transpose2 (x ! n) ! c) ! (t * stride L + k * dilation L)
          = win n t ! k ! c"
  shows "forward_conv L x =
     Inr (map (\<lambda>n. map (\<lambda>t. linear_row (linearize (weight L)) (bias L) (concat (win n t)))
                     [0..<lo]) [0..<bsz])"
proof -
  let ?f = "\<lambda>xn j t. add_bias (bias L) j
      (conv_at (weight L ! j) (map (pad_zeros (padding L)) (transpose2 xn)) (stride L) (dilation L) t)"
  have len: "length x = bsz" using x by (simp add: is_tensor3_length)
  have "forward_conv L x =
      Inr (transpose12 (map (\<lambda>xn. map (\<lambda>j. map (?f xn j) [0..<lo]) [0..<nout]) x))"
    using F_conv1d_transposed [OF w b x pos fit]
    by (simp add: forward_conv_def Conv1d_forward_def lo)
  also have "transpose12 (map (\<lambda>xn. map (\<lambda>j. map (?f xn j) [0..<lo]) [0..<nout]) x) =
      map (\<lambda>xn. map (\<lambda>t. map (\<lambda>j. ?f xn j t) [0..<nout]) [0..<lo]) x"
    using pos(4) by (simp add: transpose12_def transpose2_table)
  also have "\<dots> = map (\<lambda>n. map (\<lambda>t. map (\<lambda>j. ?f (x ! n) j t) [0..<nout]) [0..<lo]) [0..<bsz]"
    using map_by_index [of "\<lambda>xn. map (\<lambda>t. map (\<lambda>j. ?f xn j t) [0..<nout]) [0..<lo]" x] len
    by simp
  also have "\<dots> = map (\<lambda>n. map (\<lambda>t. linear_row (linearize (weight L)) (bias L)
      (concat (win n t))) [0..<lo]) [0..<bsz]"
  proof (intro map_cong refl)
    fix n t assume "n \<in> set [0..<bsz]" "t \<in> set [0..<lo]"
    then have n: "n < bsz" and t: "t < lo" by simp_all
    have xp: "length (map (pad_zeros (padding L)) (transpose2 (x ! n))) = nin"
      using transpose2_tensor [OF is_tensor3_nth [OF x n] pos(2)] by (simp add: is_tensor2_length)
    have ag: "map (pad_zeros (padding L)) (transpose2 (x ! n)) ! c ! (t * stride L + k * dilation L)
        = win n t ! k ! c" if "c < nin" "k < kw" for c k
      using agree [OF n t that] xp that by simp
    show "map (\<lambda>j. ?f (x ! n) j t) [0..<nout] =
        linear_row (linearize (weight L)) (bias L) (concat (win n t))"
      using linear_row_window [OF w win [OF n t] xp pos(3) ag] by simp
  qed
  finally show ?thesis .
qed

lemma linearize_width1:
  assumes w: "is_tensor3 nout nin 1 w" and nin: "0 < nin"
  shows "linearize w = map (map hd) w"
proof -
  have "concat (transpose2 wj) = map hd wj" if wj: "is_tensor2 nin 1 wj" for wj :: "'a list list"
  proof -
    have "r ! 0 = hd r" if "r \<in> set wj" for r
    proof -
      have "length r = 1" using that wj by (simp add: is_tensor2_def list_all_iff)
      then have "r \<noteq> []" by auto
      then show ?thesis by (simp add: hd_conv_nth)
    qed
    then show ?thesis
      using size1_tensor2 [OF wj nin] by (simp add: transpose2_def)
  qed
  then show ?thesis
    using w by (auto simp: linearize_def transpose12_def is_tensor3_def list_all_iff)
qed

lemma forward_linear_width1:
  fixes L :: "'a::comm_semiring_0 layer"
  assumes w: "is_tensor3 nout nin 1 (weight L)" and b: "bias_ok (bias L) nout"
    and x: "is_tensor3 bsz T nin x" and pos: "0 < nin" "0 < nout"
  shows "forward_linear L x = Inr (map (map (linear_row (linearize (weight L)) (bias L))) x)"
    and "forward_linear L x = F_linear3 x (map (map hd) (weight L)) (bias L)"
proof -
  have lt: "is_tensor2 nout (1 * nin) (linearize (weight L))"
    using linearize_tensor [OF w pos(1)] .
  have s1: "size1 (linearize (weight L)) = nin" using size1_tensor2 [OF lt pos(2)] by simp
  have ll: "length (linearize (weight L)) = nout" using lt by (simp add: is_tensor2_length)
  have rows: "list_all (list_all (\<lambda>r. length r = nin)) x"
    using x by (auto simp: is_tensor3_def is_tensor2_def list_all_iff)
  have s2: "size2 (weight L) = 1" using size2_tensor3 [OF w pos(2,1)] .
  show "forward_linear L x = F_linear3 x (map (map hd) (weight L)) (bias L)"
    using s2 by (simp add: forward_linear_def)
  then show "forward_linear L x = Inr (map (map (linear_row (linearize (weight L)) (bias L))) x)"
    using rows b s1 ll by (simp add: F_linear3_def linearize_width1 [OF w pos(1), symmetric])
qed

lemma forward_conv_width1:
  fixes L :: "'a::comm_semiring_0 layer"
  assumes w: "is_tensor3 nout nin 1 (weight L)" and b: "bias_ok (bias L) nout"
    and x: "is_tensor3 bsz T nin x"
    and pos: "0 < bsz" "0 < T" "0 < nin" "0 < nout"
    and cfg: "padding L = 0" "stride L = 1" "0 < dilation L"
  shows "forward_conv L x = Inr (map (map (linear_row (linearize (weight L)) (bias L))) x)"
proof -
  have lo: "T = conv_out_len T 1 (stride L) (padding L) (dilation L)"
    using pos(2) cfg by (simp add: conv_out_len_def)
  have fit: "dilation L * (1 - 1) + 1 \<le> T + 2 * padding L" using pos(2) by simp
  have s: "0 < stride L" using cfg by simp
  have win: "is_tensor2 1 nin [x ! n ! t]" if "n < bsz" "t < T" for n t
    using is_tensor2_nth [OF is_tensor3_nth [OF x that(1)] that(2)] by (simp add: is_tensor2_def)
  have agree: "pad_zeros (padding L) (transpose2 (x ! n) ! c) ! (t * stride L + k * dilation L)
      = [x ! n ! t] ! k ! c" if "n < bsz" "t < T" "c < nin" "k < 1" for n t c k
    using transpose2_nth [OF is_tensor3_nth [OF x that(1)] that(2,3)] that(4) cfg
    by (simp add: pad_zeros_0)
  have "forward_conv L x =
      Inr (map (\<lambda>n. map (\<lambda>t. linear_row (linearize (weight L)) (bias L) (concat [x ! n ! t]))
                 [0..<T]) [0..<bsz])"
    by (rule forward_conv_as_linear [OF w b x pos _ s cfg(3) fit lo win agree]) simp_all
  also have "map (\<lambda>n. map (\<lambda>t. linear_row (linearize (weight L)) (bias L) (concat [x ! n ! t]))
                 [0..<T]) [0..<bsz] =
      map (\<lambda>n. map (linear_row (linearize (weight L)) (bias L)) (x ! n)) [0..<bsz]"
  proof (intro map_cong refl)
    fix n assume "n \<in> set [0..<bsz]"
    then have "length (x ! n) = T" using is_tensor3_row_length [OF x] by simp
    then show "map (\<lambda>t. linear_row (linearize (weight L)) (bias L) (concat [x ! n ! t])) [0..<T] =
        map (linear_row (linearize (weight L)) (bias L)) (x ! n)"
      using map_by_index [of "linear_row (linearize (weight L)) (bias L)" "x ! n"] by simp
  qed
  also have "\<dots> = map (map (linear_row (linearize (weight L)) (bias L))) x"
    using map_by_index [of "map (linear_row (linearize (weight L)) (bias L))" x] x
    by (simp add: is_tensor3_length)
  finally show ?thesis .
qed

text \<open>
  C2, as the code has it. For kernel width 1, \<open>forward\<close> is the matrix multiply with the
  weight's kernel axis squeezed away (plus the bias), and never the convolution path. The
  two agree on every input of shape (batch, time, channels) when the layer's padding is 0
  and its stride is 1 (the dilation does not matter, as long as the primitive accepts it):
  the matrix multiply ignores both, the convolution primitive does not.
\<close>

theorem forward_width1_is_convolution:
  fixes L :: "'a::comm_semiring_0 layer"
  assumes "kernel_size L = 1"
    and "is_tensor3 nout nin 1 (weight L)" and "bias_ok (bias L) nout"
    and "is_tensor3 bsz T nin x"
    and "0 < bsz" and "0 < T" and "0 < nin" and "0 < nout"
    and "padding L = 0" and "stride L = 1" and "0 < dilation L"
  shows "forward L x = F_linear3 x (map (map hd) (weight L)) (bias L) \<and>
         forward L x = forward_conv L x \<and>
         (\<exists>y. forward L x = Inr y)"
proof -
  have "forward L x = forward_linear L x"
    using assms(1) by (simp add: forward_def)
  then show ?thesis
    using forward_linear_width1 [OF assms(2,3,4,7,8)]
      forward_conv_width1 [OF assms(2,3,4,5,6,7,8,9,10,11)]
    by simp
qed

theorem forward_width1_is_convolution_witness:
  "kernel_size pointwise_layer = 1 \<and> is_tensor3 1 2 1 (weight pointwise_layer) \<and>
   bias_ok (bias pointwise_layer) 1 \<and> is_tensor3 1 2 2 [[[1, 1], [2, 0 :: int]]] \<and>
   padding pointwise_layer = 0 \<and> stride pointwise_layer = 1 \<and> 0 < dilation pointwise_layer \<and>
   forward pointwise_layer [[[1, 1], [2, 0]]] = Inr [[[6], [5]]] \<and>
   forward_conv pointwise_layer [[[1, 1], [2, 0]]] = Inr [[[6], [5]]]"
proof -
  have h: "kernel_size pointwise_layer = 1" "is_tensor3 1 2 1 (weight pointwise_layer)"
    "bias_ok (bias pointwise_layer) 1" "is_tensor3 1 2 2 [[[1, 1], [2, 0 :: int]]]"
    "0 < (1::nat)" "0 < (2::nat)" "0 < (2::nat)" "0 < (1::nat)"
    "padding pointwise_layer = 0" "stride pointwise_layer = 1" "0 < dilation pointwise_layer"
    by (simp_all add: pointwise_layer_def is_tensor3_def is_tensor2_def bias_ok_def)
  have v: "forward pointwise_layer [[[1, 1], [2, 0]]] = Inr [[[6], [5]]]"
    by code_simp
  from forward_width1_is_convolution [OF h]
  have "forward pointwise_layer [[[1, 1], [2, 0]]] = forward_conv pointwise_layer [[[1, 1], [2, 0]]]"
    by blast
  with v have "forward_conv pointwise_layer [[[1, 1], [2, 0]]] = Inr [[[6], [5]]]"
    by simp
  with h v show ?thesis by simp
qed

text \<open>
  With padding 1 the convolution path returns two more time steps (the bias alone, at both
  ends), with stride 2 it returns every second one; \<open>forward\<close> returns one output frame
  per input frame in both layers.
\<close>

theorem forward_width1_padding_stride_counterexample:
  "kernel_size (pointwise_layer\<lparr>padding := 1\<rparr>) = 1 \<and>
   forward (pointwise_layer\<lparr>padding := 1\<rparr>) [[[1, 1], [2, 0]]] = Inr [[[6], [5]]] \<and>
   forward_conv (pointwise_layer\<lparr>padding := 1\<rparr>) [[[1, 1], [2, 0]]] = Inr [[[1], [6], [5], [1]]] \<and>
   kernel_size (pointwise_layer\<lparr>stride := 2\<rparr>) = 1 \<and>
   forward (pointwise_layer\<lparr>stride := 2\<rparr>) [[[1, 1], [2, 0]]] = Inr [[[6], [5]]] \<and>
   forward_conv (pointwise_layer\<lparr>stride := 2\<rparr>) [[[1, 1], [2, 0]]] = Inr [[[6]]] \<and>
   forward (pointwise_layer\<lparr>padding := 1\<rparr>) [[[1, 1], [2, 0]]] \<noteq>
     forward_conv (pointwise_layer\<lparr>padding := 1\<rparr>) [[[1, 1], [2, 0]]] \<and>
   forward (pointwise_layer\<lparr>stride := 2\<rparr>) [[[1, 1], [2, 0]]] \<noteq>
     forward_conv (pointwise_layer\<lparr>stride := 2\<rparr>) [[[1, 1], [2, 0]]]"
  by code_simp

section \<open>Incremental and batch mode agree\<close>

lemma hooks_settled_run:
  "hooks_settled L \<Longrightarrow>
   run_forward_pre_hooks L =
     L\<lparr>linearized_weight_shared := (linearized_weight_shared L \<and> forward_pre_hooks L = [])\<rparr>"
  by (simp add: hooks_settled_def run_forward_pre_hooks_def)

lemma cache_coherent_get:
  "cache_coherent L \<Longrightarrow> fst (get_linearized_weight L) = linearize (weight L)"
  by (simp add: cache_coherent_def get_linearized_weight_def Let_def split: option.splits)

text \<open>The parameters and the hooks survive a call; the cache is filled by it.\<close>

lemma incremental_forward_settled:
  assumes "hooks_settled L"
  shows "weight (fst (incremental_forward L x)) = weight L"
    and "bias (fst (incremental_forward L x)) = bias L"
    and "hooks_settled (fst (incremental_forward L x))"
proof -
  show w: "weight (fst (incremental_forward L x)) = weight L"
    by (cases "training L"; cases "kernel_size L > 1")
      (simp_all add: incremental_forward_training incremental_forward_wide
        incremental_forward_narrow Let_def hooks_settled_run [OF assms])
  show b: "bias (fst (incremental_forward L x)) = bias L"
    by (cases "training L"; cases "kernel_size L > 1")
      (simp_all add: incremental_forward_training incremental_forward_wide
        incremental_forward_narrow Let_def hooks_settled_run [OF assms])
  show "hooks_settled (fst (incremental_forward L x))"
    using assms w b by (simp add: hooks_settled_def)
qed

lemma incremental_forward_coherent:
  assumes "hooks_settled L" "cache_coherent L"
  shows "cache_coherent (fst (incremental_forward L x))"
proof (cases "training L")
  case True
  then show ?thesis using assms by (simp add: incremental_forward_training)
next
  case False
  have "linearized_weight (fst (incremental_forward L x)) = Some (linearize (weight L))"
    using False cache_coherent_get [OF assms(2)]
    by (cases "kernel_size L > 1")
      (simp_all add: incremental_forward_wide incremental_forward_narrow Let_def
        hooks_settled_run [OF assms(1)])
  then show ?thesis
    using incremental_forward_settled(1) [OF assms(1)] by (simp add: cache_coherent_def)
qed

lemma steps_settled:
  assumes "hooks_settled L" "cache_coherent L"
  shows "weight (foldl (\<lambda>L x. fst (incremental_forward L x)) L xs) = weight L \<and>
         bias (foldl (\<lambda>L x. fst (incremental_forward L x)) L xs) = bias L \<and>
         hooks_settled (foldl (\<lambda>L x. fst (incremental_forward L x)) L xs) \<and>
         cache_coherent (foldl (\<lambda>L x. fst (incremental_forward L x)) L xs)"
  using assms
proof (induction xs arbitrary: L)
  case Nil
  then show ?case by simp
next
  case (Cons x xs)
  show ?case
    using Cons.IH [OF incremental_forward_settled(3) [OF Cons.prems(1)]
        incremental_forward_coherent [OF Cons.prems]]
      incremental_forward_settled(1,2) [OF Cons.prems(1)]
    by simp
qed

text \<open>The output of a call, read off the buffer the call leaves.\<close>

lemma incremental_forward_output:
  fixes L :: "'a::comm_semiring_0 layer"
  assumes L: "\<not> training L" "kernel_size L > 1" "hooks_settled L" "cache_coherent L"
    and w: "is_tensor3 nout nin (kernel_size L) (weight L)" and b: "bias_ok (bias L) nout"
    and x: "is_tensor3 bsz T nin x" and pos: "0 < bsz" "0 < T" "0 < nin" "0 < nout"
    and old: "input_buffer L = None \<or>
              (\<exists>buf. input_buffer L = Some buf \<and> is_tensor3 bsz (kernel_size L) nin buf)"
    and new: "input_buffer (fst (incremental_forward L x)) = Some buf'"
      "is_tensor3 bsz (kernel_size L) nin buf'"
  shows "snd (incremental_forward L x) =
         Inr (map (\<lambda>n. [linear_row (linearize (weight L)) (bias L) (concat (buf' ! n))]) [0..<bsz])"
proof -
  let ?buf = "case input_buffer L of
                None \<Rightarrow> new_buffer (length x) (kernel_size L) (size2 x)
              | Some old \<Rightarrow> shift_buffer old"
  have kw: "0 < kernel_size L" using L(2) by simp
  have len: "length x = bsz" using x by (simp add: is_tensor3_length)
  have s2: "size2 x = nin" using size2_tensor3 [OF x pos(1,2)] .
  have ok: "append_ok ?buf x"
    using old new_buffer_append_ok [OF x pos(2) kw] shift_buffer_append_ok [OF _ x pos(2) kw]
    by (auto simp: len s2)
  have buf': "buf' = append_input ?buf x"
    using new(1) ok by (simp add: incremental_forward_wide [OF L(1,2)] Let_def)
  have lw: "fst (get_linearized_weight L) = linearize (weight L)"
    using cache_coherent_get [OF L(4)] .
  have out: "snd (incremental_forward L x) =
      (case F_linear (map concat buf') (linearize (weight L)) (bias L) of
         Inl e \<Rightarrow> Inl e | Inr y \<Rightarrow> Inr (map (\<lambda>r. [r]) y))"
    using ok by (simp add: incremental_forward_wide [OF L(1,2)] Let_def buf' lw
        hooks_settled_run [OF L(3)])
  have lt: "is_tensor2 nout (kernel_size L * nin) (linearize (weight L))"
    using linearize_tensor [OF w pos(3)] .
  have rows: "list_all (\<lambda>r. length r = kernel_size L * nin) (map concat buf')"
    using new(2) length_concat_tensor2
    by (auto simp: is_tensor3_def list_all_iff)
  have "F_linear (map concat buf') (linearize (weight L)) (bias L) =
      Inr (map (linear_row (linearize (weight L)) (bias L)) (map concat buf'))"
    using rows b size1_tensor2 [OF lt pos(4)] is_tensor2_length [OF lt]
    by (simp add: F_linear_def)
  then have "snd (incremental_forward L x) =
      Inr (map (\<lambda>r. [linear_row (linearize (weight L)) (bias L) (concat r)]) buf')"
    using out by (simp add: comp_def)
  then show ?thesis
    using map_by_index [of "\<lambda>r. [linear_row (linearize (weight L)) (bias L) (concat r)]" buf']
      new(2) by (simp add: is_tensor3_length)
qed

lemma incremental_steps_snoc:
  "incremental_steps L xs = (L', Inr ys) \<Longrightarrow>
   incremental_steps L (xs @ [x]) =
     (fst (incremental_forward L' x),
      case snd (incremental_forward L' x) of Inl e \<Rightarrow> Inl e | Inr y \<Rightarrow> Inr (ys @ [y]))"
proof (induction xs arbitrary: L ys)
  case Nil
  then show ?case by (auto split: prod.splits sum.splits)
next
  case (Cons a xs)
  then show ?case
    by (auto split: prod.splits sum.splits)
qed

lemma incremental_steps_outputs:
  fixes L :: "'a::comm_semiring_0 layer"
  assumes L: "\<not> training L" "kernel_size L > 1" "hooks_settled L" "cache_coherent L"
      "input_buffer L = None"
    and w: "is_tensor3 nout nin (kernel_size L) (weight L)" and b: "bias_ok (bias L) nout"
    and pos: "0 < bsz" "0 < T" "0 < nin" "0 < nout"
    and xs: "list_all (is_tensor3 bsz T nin) xs"
  shows "incremental_steps L xs =
     (foldl (\<lambda>L x. fst (incremental_forward L x)) L xs,
      Inr (map (\<lambda>i. map (\<lambda>n. [linear_row (linearize (weight L)) (bias L)
              (concat (drop (Suc i) (replicate (kernel_size L) (replicate nin 0) @
                 map (\<lambda>x. last (x ! n)) (take (Suc i) xs))))]) [0..<bsz])
           [0..<length xs]))"
  using xs
proof (induction xs rule: rev_induct)
  case Nil
  then show ?case by simp
next
  case (snoc x xs)
  let ?step = "\<lambda>L x. fst (incremental_forward L x)"
  let ?L = "foldl ?step L xs"
  let ?z = "replicate nin (0::'a)"
  let ?out = "\<lambda>ys i. map (\<lambda>n. [linear_row (linearize (weight L)) (bias L)
      (concat (drop (Suc i) (replicate (kernel_size L) ?z @
         map (\<lambda>x. last (x ! n)) (take (Suc i) ys))))]) [0..<bsz]"
  have x: "is_tensor3 bsz T nin x" and xs': "list_all (is_tensor3 bsz T nin) xs"
    and all: "list_all (is_tensor3 bsz T nin) (xs @ [x])"
    using snoc.prems by simp_all
  have inv: "weight ?L = weight L" "bias ?L = bias L" "hooks_settled ?L" "cache_coherent ?L"
    using steps_settled [OF L(3,4), of xs] by simp_all
  have L': "\<not> training ?L" "kernel_size ?L > 1" using L(1,2) by simp_all
  have w': "is_tensor3 nout nin (kernel_size ?L) (weight ?L)" using w inv(1) by simp
  have b': "bias_ok (bias ?L) nout" using b inv(2) by simp
  have old: "input_buffer ?L = None \<or>
      (\<exists>buf. input_buffer ?L = Some buf \<and> is_tensor3 bsz (kernel_size ?L) nin buf)"
  proof (cases "xs = []")
    case True
    then show ?thesis using L(5) by simp
  next
    case False
    from buffer_after_steps [OF L(1,2,5) pos(1,2) xs' False] show ?thesis by auto
  qed
  from buffer_after_steps [OF L(1,2,5) pos(1,2) all] obtain buf' where
    new: "input_buffer (foldl ?step L (xs @ [x])) = Some buf'"
      "is_tensor3 bsz (kernel_size L) nin buf'"
    and rows: "\<And>n. n < bsz \<Longrightarrow> buf' ! n =
      drop (length (xs @ [x])) (replicate (kernel_size L) ?z @ map (\<lambda>x. last (x ! n)) (xs @ [x]))"
    by auto
  have new': "input_buffer (fst (incremental_forward ?L x)) = Some buf'"
    "is_tensor3 bsz (kernel_size ?L) nin buf'"
    using new by simp_all
  have "snd (incremental_forward ?L x) =
      Inr (map (\<lambda>n. [linear_row (linearize (weight ?L)) (bias ?L) (concat (buf' ! n))]) [0..<bsz])"
    using incremental_forward_output [OF L' inv(3,4) w' b' x pos old new'] .
  also have "map (\<lambda>n. [linear_row (linearize (weight ?L)) (bias ?L) (concat (buf' ! n))]) [0..<bsz]
      = ?out (xs @ [x]) (length xs)"
    using rows by (simp add: inv(1,2))
  finally have last: "snd (incremental_forward ?L x) = Inr (?out (xs @ [x]) (length xs))" .
  have prev: "incremental_steps L xs = (?L, Inr (map (?out xs) [0..<length xs]))"
    using snoc.IH [OF xs'] .
  have same: "map (?out xs) [0..<length xs] = map (?out (xs @ [x])) [0..<length xs]"
    by (intro map_cong refl) simp
  show ?case
    using incremental_steps_snoc [OF prev, of x] last
    by (simp add: same)
qed

lemma time_frames_eq:
  assumes x: "is_tensor3 bsz T nin x" and pos: "0 < bsz"
  shows "time_frames x = map (\<lambda>t. map (\<lambda>r. [r ! t]) x) [0..<T]"
  using size1_tensor3 [OF x pos] by (simp add: time_frames_def)

lemma time_frames_tensors:
  assumes x: "is_tensor3 bsz T nin x" and pos: "0 < bsz"
  shows "list_all (is_tensor3 bsz 1 nin) (time_frames x)"
proof -
  have len: "length x = bsz" using x by (simp add: is_tensor3_length)
  have "is_tensor3 bsz 1 nin (map (\<lambda>r. [r ! t]) x)" if t: "t < T" for t
  proof -
    have "is_tensor2 1 nin (map (\<lambda>r. [r ! t]) x ! n)" if n: "n < bsz" for n
      using is_tensor2_nth [OF is_tensor3_nth [OF x n] t] n len by (simp add: is_tensor2_def)
    then show ?thesis using len by (simp add: is_tensor3_iff)
  qed
  then show ?thesis
    by (simp add: time_frames_eq [OF x pos] list_all_iff)
qed

lemma time_frames_column:
  assumes x: "is_tensor3 bsz T nin x" and pos: "0 < bsz" and n: "n < bsz" and t: "t < T"
  shows "map (\<lambda>f. last (f ! n)) (take (Suc t) (time_frames x)) = take (Suc t) (x ! n)"
proof -
  have len: "length x = bsz" "length (x ! n) = T"
    using x n by (simp_all add: is_tensor3_length is_tensor3_row_length [OF x])
  show ?thesis
  proof (rule nth_equalityI)
    show "length (map (\<lambda>f. last (f ! n)) (take (Suc t) (time_frames x))) = length (take (Suc t) (x ! n))"
      using t len by (simp add: time_frames_eq [OF x pos])
  next
    fix i assume "i < length (map (\<lambda>f. last (f ! n)) (take (Suc t) (time_frames x)))"
    then have i: "i < Suc t" "i < T" using t by (simp_all add: time_frames_eq [OF x pos])
    then show "map (\<lambda>f. last (f ! n)) (take (Suc t) (time_frames x)) ! i = take (Suc t) (x ! n) ! i"
      using n len by (simp add: time_frames_eq [OF x pos])
  qed
qed

text \<open>
  The window that the buffer holds after step \<open>t\<close> is the window of the padded input that
  the convolution reads for output \<open>t\<close>.
\<close>

lemma causal_window_entry:
  fixes xn :: "'a::comm_semiring_0 tensor2"
  assumes xn: "is_tensor2 T nin xn" and t: "t < T" and k: "k < kw" and c: "c < nin"
  shows "pad_zeros (kw - 1) (transpose2 xn ! c) ! (t + k) =
         drop (Suc t) (replicate kw (replicate nin 0) @ take (Suc t) xn) ! k ! c"
proof -
  let ?ys = "replicate kw (replicate nin (0::'a)) @ take (Suc t) xn"
  have T: "0 < T" using t by simp
  have len: "length xn = T" using xn by (simp add: is_tensor2_length)
  have col: "transpose2 xn ! c = map (\<lambda>r. r ! c) xn"
    using c size1_tensor2 [OF xn T] by (simp add: transpose2_def)
  have "Suc t \<le> length ?ys" using t len by simp
  then have rhs: "drop (Suc t) ?ys ! k = ?ys ! (Suc t + k)"
    by (rule nth_drop)
  show ?thesis
  proof (cases "t + k < kw - 1")
    case True
    then have "Suc t + k < kw" by simp
    then have "?ys ! (Suc t + k) ! c = 0"
      using c by (simp add: nth_append)
    moreover have "pad_zeros (kw - 1) (transpose2 xn ! c) ! (t + k) = 0"
      using True by (simp add: pad_zeros_def nth_append)
    ultimately show ?thesis unfolding rhs by (simp only:)
  next
    case False
    then have ge: "kw \<le> Suc t + k" "kw - 1 \<le> t + k" by simp_all
    define i where "i = t + k - (kw - 1)"
    have i: "Suc t + k - kw = i" "i < Suc t" "i < T"
      using ge k t by (simp_all add: i_def)
    have "?ys ! (Suc t + k) = take (Suc t) xn ! (Suc t + k - kw)"
      using ge(1) by (simp only: nth_append length_replicate) simp
    also have "\<dots> = take (Suc t) xn ! i" by (simp only: i(1))
    also have "\<dots> = xn ! i" using i(2) by (rule nth_take)
    finally have r: "?ys ! (Suc t + k) ! c = xn ! i ! c" by (simp only:)
    have "pad_zeros (kw - 1) (transpose2 xn ! c) ! (t + k) =
        (map (\<lambda>r. r ! c) xn @ replicate (kw - 1) 0) ! i"
      using False by (simp add: pad_zeros_def col nth_append i_def)
    also have "\<dots> = map (\<lambda>r. r ! c) xn ! i"
      using i(3) len by (simp only: nth_append length_map if_True)
    also have "\<dots> = xn ! i ! c"
      using i(3) len by (simp only: nth_map)
    finally show ?thesis unfolding rhs r .
  qed
qed

lemma causal_window_tensor:
  assumes xn: "is_tensor2 T nin xn" and t: "t < T"
  shows "is_tensor2 kw nin (drop (Suc t) (replicate kw (replicate nin z) @ take (Suc t) xn))"
proof -
  have len: "length xn = T" using xn by (simp add: is_tensor2_length)
  have "length r = nin" if "r \<in> set (replicate kw (replicate nin z) @ take (Suc t) xn)" for r
    using that xn by (auto simp: is_tensor2_def list_all_iff dest: in_set_takeD)
  then have "length r = nin"
    if "r \<in> set (drop (Suc t) (replicate kw (replicate nin z) @ take (Suc t) xn))" for r
    using that in_set_dropD by fast
  then show ?thesis
    using t len by (simp add: is_tensor2_def list_all_iff)
qed

lemma cat_time_table:
  assumes "0 < T"
  shows "cat_time (map (\<lambda>i. map (\<lambda>n. [f i n]) [0..<bsz]) [0..<T]) =
         Inr (map (\<lambda>n. map (\<lambda>i. f i n) [0..<T]) [0..<bsz])"
proof -
  let ?ys = "map (\<lambda>i. map (\<lambda>n. [f i n]) [0..<bsz]) [0..<T]"
  have "?ys = map (\<lambda>n. [f 0 n]) [0..<bsz] # map (\<lambda>i. map (\<lambda>n. [f i n]) [0..<bsz]) [1..<T]"
    using assms by (simp add: upt_conv_Cons)
  then have "cat_time ?ys = Inr (map (\<lambda>n. concat (map (\<lambda>y. y ! n) ?ys)) [0..<bsz])"
    by (simp add: cat_time_def)
  also have "map (\<lambda>n. concat (map (\<lambda>y. y ! n) ?ys)) [0..<bsz] =
      map (\<lambda>n. map (\<lambda>i. f i n) [0..<T]) [0..<bsz]"
  proof (intro map_cong refl)
    fix n assume "n \<in> set [0..<bsz]"
    then have "map (\<lambda>y. y ! n) ?ys = map (\<lambda>i. [f i n]) [0..<T]" by simp
    then show "concat (map (\<lambda>y. y ! n) ?ys) = map (\<lambda>i. f i n) [0..<T]"
      by (simp only: concat_map_singleton)
  qed
  finally show ?thesis .
qed

lemma forward_causal:
  fixes L :: "'a::comm_semiring_0 layer"
  assumes kw: "kernel_size L = kw" "1 < kw"
    and cfg: "padding L = kw - 1" "stride L = 1" "dilation L = 1"
    and w: "is_tensor3 nout nin kw (weight L)" and b: "bias_ok (bias L) nout"
    and x: "is_tensor3 bsz T nin x"
    and pos: "0 < bsz" "0 < T" "0 < nin" "0 < nout"
  shows "\<exists>y. forward L x = Inr y \<and>
           remove_future_timesteps L y =
             map (\<lambda>n. map (\<lambda>t. linear_row (linearize (weight L)) (bias L)
                   (concat (drop (Suc t) (replicate kw (replicate nin 0) @ take (Suc t) (x ! n)))))
                 [0..<T]) [0..<bsz]"
proof -
  define W where "W n t = drop (Suc t) (replicate kw (replicate nin (0::'a)) @ take (Suc t) (x ! n))"
    for n t
  define G where "G n t = map (\<lambda>k. map (\<lambda>c. pad_zeros (kw - 1) (transpose2 (x ! n) ! c) ! (t + k))
      [0..<nin]) [0..<kw]" for n t
  define win where "win n t = (if t < T then W n t else G n t)" for n t
  define lo where "lo = T + kw - 1"
  have kw0: "0 < kw" using kw(2) by simp
  have lo: "lo = conv_out_len T kw (stride L) (padding L) (dilation L)"
    using kw(2) pos(2) cfg by (simp add: conv_out_len_def lo_def)
  have fit: "dilation L * (kw - 1) + 1 \<le> T + 2 * padding L" using cfg kw(2) by simp
  have s: "0 < stride L" and d: "0 < dilation L" using cfg by simp_all
  have shape: "is_tensor2 kw nin (win n t)" if "n < bsz" "t < lo" for n t
  proof (cases "t < T")
    case True
    then show ?thesis
      using causal_window_tensor [OF is_tensor3_nth [OF x that(1)] True]
      by (simp add: win_def W_def)
  next
    case False
    then show ?thesis by (simp add: win_def G_def is_tensor2_iff)
  qed
  have agree: "pad_zeros (padding L) (transpose2 (x ! n) ! c) ! (t * stride L + k * dilation L)
      = win n t ! k ! c" if "n < bsz" "t < lo" "c < nin" "k < kw" for n t c k
  proof (cases "t < T")
    case True
    then show ?thesis
      using causal_window_entry [OF is_tensor3_nth [OF x that(1)] True that(4,3)] cfg
      by (simp add: win_def W_def)
  next
    case False
    then show ?thesis using that cfg by (simp add: win_def G_def)
  qed
  let ?f = "\<lambda>n t. linear_row (linearize (weight L)) (bias L) (concat (win n t))"
  let ?y = "map (\<lambda>n. map (?f n) [0..<lo]) [0..<bsz]"
  have "forward_conv L x = Inr ?y"
    by (rule forward_conv_as_linear [OF w b x pos kw0 s d fit lo shape agree])
  then have fwd: "forward L x = Inr ?y"
    using kw by (simp add: forward_def)
  have "remove_future_timesteps L ?y = map (\<lambda>n. take (lo - (kw - 1)) (map (?f n) [0..<lo])) [0..<bsz]"
    using kw cfg by (simp add: remove_future_timesteps_def comp_def)
  also have "\<dots> = map (\<lambda>n. map (?f n) [0..<T]) [0..<bsz]"
    using kw(2) by (simp add: lo_def take_map)
  also have "\<dots> = map (\<lambda>n. map (\<lambda>t. linear_row (linearize (weight L)) (bias L) (concat (W n t)))
      [0..<T]) [0..<bsz]"
    by (intro map_cong refl) (simp add: win_def)
  finally show ?thesis
    using fwd unfolding W_def by blast
qed

text \<open>
  C1, as the code has it. Take a layer in inference mode with kernel width above 1, causal
  padding \<open>kw - 1\<close>, stride 1 and dilation 1, no buffer, settled pre-hooks and a coherent
  cache. Feeding the \<open>T\<close> frames of an input of shape (batch, T, in) one at a time to
  \<open>incremental_forward\<close> succeeds, and the \<open>T\<close> outputs concatenated along the time axis
  are \<open>remove_future_timesteps (forward x)\<close>. The incremental path has no stride and no
  dilation: it always projects the last \<open>kw\<close> consecutive frames.
\<close>

theorem incremental_matches_forward:
  fixes L :: "'a::comm_semiring_0 layer"
  assumes "kernel_size L = kw" and "1 < kw"
    and "padding L = kw - 1" and "stride L = 1" and "dilation L = 1"
    and "\<not> training L" and "input_buffer L = None"
    and "hooks_settled L" and "cache_coherent L"
    and "is_tensor3 nout nin kw (weight L)" and "bias_ok (bias L) nout"
    and "is_tensor3 bsz T nin x"
    and "0 < bsz" and "0 < T" and "0 < nin" and "0 < nout"
  shows "\<exists>ys y. snd (incremental_steps L (time_frames x)) = Inr ys \<and> length ys = T \<and>
           forward L x = Inr y \<and>
           cat_time ys = Inr (remove_future_timesteps L y)"
proof -
  let ?lw = "linearize (weight L)"
  let ?z = "replicate nin (0::'a)"
  let ?fs = "time_frames x"
  let ?o = "\<lambda>i n. linear_row ?lw (bias L) (concat (drop (Suc i) (replicate kw ?z @ take (Suc i) (x ! n))))"
  have k1: "kernel_size L > 1" using assms(1,2) by simp
  have w: "is_tensor3 nout nin (kernel_size L) (weight L)" using assms(1,10) by simp
  have one: "0 < (1::nat)" by simp
  have len: "length ?fs = T"
    by (simp add: time_frames_eq [OF assms(12,13)])
  have "incremental_steps L ?fs =
     (foldl (\<lambda>L x. fst (incremental_forward L x)) L ?fs,
      Inr (map (\<lambda>i. map (\<lambda>n. [linear_row ?lw (bias L)
              (concat (drop (Suc i) (replicate (kernel_size L) ?z @
                 map (\<lambda>x. last (x ! n)) (take (Suc i) ?fs))))]) [0..<bsz])
           [0..<length ?fs]))"
    by (rule incremental_steps_outputs [OF assms(6) k1 assms(8,9,7) w assms(11,13) one assms(15,16)
          time_frames_tensors [OF assms(12,13)]])
  also have "map (\<lambda>i. map (\<lambda>n. [linear_row ?lw (bias L)
              (concat (drop (Suc i) (replicate (kernel_size L) ?z @
                 map (\<lambda>x. last (x ! n)) (take (Suc i) ?fs))))]) [0..<bsz]) [0..<length ?fs] =
      map (\<lambda>i. map (\<lambda>n. [?o i n]) [0..<bsz]) [0..<T]"
    unfolding len
  proof (intro map_cong refl)
    fix i n assume "i \<in> set [0..<T]" "n \<in> set [0..<bsz]"
    then have "i < T" "n < bsz" by simp_all
    then show "[linear_row ?lw (bias L)
              (concat (drop (Suc i) (replicate (kernel_size L) ?z @
                 map (\<lambda>x. last (x ! n)) (take (Suc i) ?fs))))] = [?o i n]"
      using time_frames_column [OF assms(12,13)] assms(1) by simp
  qed
  finally have steps: "snd (incremental_steps L ?fs) =
      Inr (map (\<lambda>i. map (\<lambda>n. [?o i n]) [0..<bsz]) [0..<T])"
    by simp
  have cat: "cat_time (map (\<lambda>i. map (\<lambda>n. [?o i n]) [0..<bsz]) [0..<T]) =
      Inr (map (\<lambda>n. map (\<lambda>i. ?o i n) [0..<T]) [0..<bsz])"
    using cat_time_table [OF assms(14)] .
  from forward_causal [OF assms(1,2,3,4,5,10,11,12,13,14,15,16)] obtain y where
    y: "forward L x = Inr y"
      "remove_future_timesteps L y = map (\<lambda>n. map (\<lambda>i. ?o i n) [0..<T]) [0..<bsz]"
    by blast
  show ?thesis
  proof (intro exI conjI)
    show "snd (incremental_steps L ?fs) = Inr (map (\<lambda>i. map (\<lambda>n. [?o i n]) [0..<bsz]) [0..<T])"
      by (rule steps)
    show "length (map (\<lambda>i. map (\<lambda>n. [?o i n]) [0..<bsz]) [0..<T]) = T"
      by (simp only: length_map length_upt diff_zero)
    show "forward L x = Inr y" by (rule y(1))
    show "cat_time (map (\<lambda>i. map (\<lambda>n. [?o i n]) [0..<bsz]) [0..<T]) =
        Inr (remove_future_timesteps L y)"
      unfolding y(2) by (rule cat)
  qed
qed

theorem incremental_matches_forward_witness:
  "kernel_size two_channel_layer = 3 \<and> padding two_channel_layer = 3 - 1 \<and>
   stride two_channel_layer = 1 \<and> dilation two_channel_layer = 1 \<and>
   \<not> training two_channel_layer \<and> input_buffer two_channel_layer = None \<and>
   hooks_settled two_channel_layer \<and> cache_coherent two_channel_layer \<and>
   is_tensor3 2 2 3 (weight two_channel_layer) \<and> bias_ok (bias two_channel_layer) 2 \<and>
   is_tensor3 2 3 2 [[[1, 2], [3, 4], [5, 6]], [[0, 1], [1, 0], [2, 2 :: int]]] \<and>
   snd (incremental_steps two_channel_layer
          (time_frames [[[1, 2], [3, 4], [5, 6]], [[0, 1], [1, 0], [2, 2]]])) =
     Inr [[[[16, 35]], [[7, 14]]], [[[46, 107]], [[9, 22]]], [[[87, 214]], [[25, 62]]]] \<and>
   forward two_channel_layer [[[1, 2], [3, 4], [5, 6]], [[0, 1], [1, 0], [2, 2]]] =
     Inr [[[16, 35], [46, 107], [87, 214], [60, 169], [30, 97]],
          [[7, 14], [9, 22], [25, 62], [16, 47], [11, 36]]] \<and>
   cat_time [[[[16, 35]], [[7, 14]]], [[[46, 107]], [[9, 22]]], [[[87, 214]], [[25, 62]]]] =
     Inr (remove_future_timesteps two_channel_layer
            [[[16, 35], [46, 107], [87, 214], [60, 169], [30, 97]],
             [[7, 14], [9, 22], [25, 62], [16, 47], [11, 36]]])"
proof -
  let ?L = "two_channel_layer"
  let ?x = "[[[1, 2], [3, 4], [5, 6]], [[0, 1], [1, 0], [2, 2 :: int]]]"
  have h: "kernel_size ?L = 3" "1 < (3::nat)" "padding ?L = 3 - 1" "stride ?L = 1"
    "dilation ?L = 1" "\<not> training ?L" "input_buffer ?L = None"
    "hooks_settled ?L" "cache_coherent ?L"
    "is_tensor3 2 2 3 (weight ?L)" "bias_ok (bias ?L) 2" "is_tensor3 2 3 2 ?x"
    "0 < (2::nat)" "0 < (3::nat)" "0 < (2::nat)" "0 < (2::nat)"
    by (simp_all add: two_channel_layer_def hooks_settled_def cache_coherent_def
        is_tensor3_def is_tensor2_def bias_ok_def)
  have s: "snd (incremental_steps ?L (time_frames ?x)) =
      Inr [[[[16, 35]], [[7, 14]]], [[[46, 107]], [[9, 22]]], [[[87, 214]], [[25, 62]]]]"
    by code_simp
  have f: "forward ?L ?x =
      Inr [[[16, 35], [46, 107], [87, 214], [60, 169], [30, 97]],
           [[7, 14], [9, 22], [25, 62], [16, 47], [11, 36]]]"
    by code_simp
  from incremental_matches_forward [OF h] obtain ys y where
    "snd (incremental_steps ?L (time_frames ?x)) = Inr ys" "forward ?L ?x = Inr y"
    "cat_time ys = Inr (remove_future_timesteps ?L y)"
    by blast
  with s f have "cat_time [[[[16, 35]], [[7, 14]]], [[[46, 107]], [[9, 22]]], [[[87, 214]], [[25, 62]]]] =
     Inr (remove_future_timesteps ?L
            [[[16, 35], [46, 107], [87, 214], [60, 169], [30, 97]],
             [[7, 14], [9, 22], [25, 62], [16, 47], [11, 36]]])"
    by simp
  with h s f show ?thesis by blast
qed

text \<open>
  With stride 2 or dilation 2, on the scenario layer and the inputs 1, 2, 3, 4: the
  incremental outputs are 3, 8, 14, 20 in both layers, while batch mode followed by
  \<open>remove_future_timesteps\<close> gives 3 alone (stride 2) and 11, 16 (dilation 2).
\<close>

theorem incremental_matches_forward_stride_dilation_counterexample:
  "kernel_size (scenario_layer\<lparr>stride := 2\<rparr>) = 3 \<and> padding (scenario_layer\<lparr>stride := 2\<rparr>) = 3 - 1 \<and>
   input_buffer (scenario_layer\<lparr>stride := 2\<rparr>) = None \<and>
   snd (incremental_steps (scenario_layer\<lparr>stride := 2\<rparr>) (time_frames [[[1], [2], [3], [4]]])) =
     Inr [[[[3]]], [[[8]]], [[[14]]], [[[20]]]] \<and>
   cat_time [[[[3]]], [[[8]]], [[[14]]], [[[20 :: int]]]] = Inr [[[3], [8], [14], [20]]] \<and>
   forward (scenario_layer\<lparr>stride := 2\<rparr>) [[[1], [2], [3], [4]]] = Inr [[[3], [14], [11]]] \<and>
   remove_future_timesteps (scenario_layer\<lparr>stride := 2\<rparr>) [[[3], [14], [11]]] = [[[3]]] \<and>
   kernel_size (scenario_layer\<lparr>dilation := 2\<rparr>) = 3 \<and> padding (scenario_layer\<lparr>dilation := 2\<rparr>) = 3 - 1 \<and>
   input_buffer (scenario_layer\<lparr>dilation := 2\<rparr>) = None \<and>
   snd (incremental_steps (scenario_layer\<lparr>dilation := 2\<rparr>) (time_frames [[[1], [2], [3], [4]]])) =
     Inr [[[[3]]], [[[8]]], [[[14]]], [[[20]]]] \<and>
   forward (scenario_layer\<lparr>dilation := 2\<rparr>) [[[1], [2], [3], [4]]] = Inr [[[11], [16], [7], [10]]] \<and>
   remove_future_timesteps (scenario_layer\<lparr>dilation := 2\<rparr>) [[[11], [16], [7], [10]]] = [[[11], [16]]] \<and>
   cat_time [[[[3]]], [[[8]]], [[[14]]], [[[20 :: int]]]] \<noteq>
     Inr (remove_future_timesteps (scenario_layer\<lparr>stride := 2\<rparr>) [[[3], [14], [11]]]) \<and>
   cat_time [[[[3]]], [[[8]]], [[[14]]], [[[20 :: int]]]] \<noteq>
     Inr (remove_future_timesteps (scenario_layer\<lparr>dilation := 2\<rparr>) [[[11], [16], [7], [10]]])"
  by code_simp

section \<open>Clearing the buffer\<close>

lemma alike_hooks_settled: "alike A B \<Longrightarrow> hooks_settled B"
  by (auto simp: alike_def hooks_settled_def)

lemma alike_step:
  fixes A B :: "'a::comm_semiring_0 layer"
  assumes "alike A B"
  shows "snd (incremental_forward A x) = snd (incremental_forward B x)"
    and "alike (fst (incremental_forward A x)) (fst (incremental_forward B x))"
proof -
  have sA: "hooks_settled A" and sB: "hooks_settled B"
    and cA: "cache_coherent A" and cB: "cache_coherent B"
    using assms alike_hooks_settled [OF assms] by (simp_all add: alike_def)
  have eq: "kernel_size A = kernel_size B" "weight A = weight B" "bias A = bias B"
    "training A = training B" "forward_pre_hooks A = forward_pre_hooks B"
    "input_buffer A = input_buffer B"
    using assms by (simp_all add: alike_def)
  have lw: "fst (get_linearized_weight A) = fst (get_linearized_weight B)"
    using cache_coherent_get [OF cA] cache_coherent_get [OF cB] eq(2) by simp
  show out: "snd (incremental_forward A x) = snd (incremental_forward B x)"
  proof (cases "training A")
    case True
    then show ?thesis using eq(4) by (simp add: incremental_forward_training)
  next
    case False
    then have fB: "\<not> training B" using eq(4) by simp
    show ?thesis
    proof (cases "kernel_size A > 1")
      case True
      then have kB: "kernel_size B > 1" using eq(1) by simp
      show ?thesis
        by (simp add: incremental_forward_wide [OF False True] incremental_forward_wide [OF fB kB]
            Let_def hooks_settled_run [OF sA] hooks_settled_run [OF sB] lw eq
            cong: option.case_cong)
    next
      case k: False
      then have kB: "\<not> kernel_size B > 1" using eq(1) by simp
      show ?thesis
        by (simp add: incremental_forward_narrow [OF False k] incremental_forward_narrow [OF fB kB]
            Let_def hooks_settled_run [OF sA] hooks_settled_run [OF sB] lw eq
            cong: option.case_cong)
    qed
  qed
  have buf: "input_buffer (fst (incremental_forward A x)) = input_buffer (fst (incremental_forward B x))"
  proof (cases "training A")
    case True
    then show ?thesis using eq(4,6) by (simp add: incremental_forward_training)
  next
    case False
    then have fB: "\<not> training B" using eq(4) by simp
    show ?thesis
    proof (cases "kernel_size A > 1")
      case True
      then have kB: "kernel_size B > 1" using eq(1) by simp
      show ?thesis
        by (simp add: incremental_forward_wide [OF False True] incremental_forward_wide [OF fB kB]
            Let_def eq cong: option.case_cong)
    next
      case k: False
      then have kB: "\<not> kernel_size B > 1" using eq(1) by simp
      show ?thesis
        by (simp add: incremental_forward_narrow [OF False k] incremental_forward_narrow [OF fB kB]
            Let_def eq cong: option.case_cong)
    qed
  qed
  show "alike (fst (incremental_forward A x)) (fst (incremental_forward B x))"
    using incremental_forward_settled [OF sA, of x] incremental_forward_settled [OF sB, of x]
      incremental_forward_coherent [OF sA cA, of x] incremental_forward_coherent [OF sB cB, of x]
      eq buf
    by (simp add: alike_def)
qed

lemma alike_steps:
  fixes A B :: "'a::comm_semiring_0 layer"
  shows "alike A B \<Longrightarrow> snd (incremental_steps A xs) = snd (incremental_steps B xs)"
proof (induction xs arbitrary: A B)
  case Nil
  then show ?case by simp
next
  case (Cons x xs)
  have o: "snd (incremental_forward A x) = snd (incremental_forward B x)"
    using alike_step(1) [OF Cons.prems] .
  have "snd (incremental_steps (fst (incremental_forward A x)) xs) =
      snd (incremental_steps (fst (incremental_forward B x)) xs)"
    using Cons.IH [OF alike_step(2) [OF Cons.prems]] .
  then show ?case
    using o by (simp add: case_prod_beta split: sum.splits prod.splits) 
qed

lemma perform_incremental_activity:
  fixes L :: "'a::comm_semiring_0 layer"
  assumes "hooks_settled L" "cache_coherent L" "incremental_activity e"
  shows "kernel_size (perform L e) = kernel_size L \<and> weight (perform L e) = weight L \<and>
         bias (perform L e) = bias L \<and> training (perform L e) = training L \<and>
         forward_pre_hooks (perform L e) = forward_pre_hooks L \<and>
         hooks_settled (perform L e) \<and> cache_coherent (perform L e)"
proof (cases e)
  case (IncrementalForward x)
  then show ?thesis
    using incremental_forward_settled [OF assms(1), of x]
      incremental_forward_coherent [OF assms(1,2), of x]
    by simp
next
  case (ReorderBuffer new_order)
  then show ?thesis
    using assms(1,2)
    by (auto simp: reorder_buffer_def hooks_settled_def cache_coherent_def
        split: option.splits cong: option.case_cong)
qed (use assms in \<open>simp_all add: clear_buffer_def hooks_settled_def cache_coherent_def
    cong: option.case_cong\<close>)

lemma run_incremental_activity:
  fixes L :: "'a::comm_semiring_0 layer"
  assumes "hooks_settled L" "cache_coherent L" "list_all incremental_activity es"
  shows "kernel_size (run L es) = kernel_size L \<and> weight (run L es) = weight L \<and>
         bias (run L es) = bias L \<and> training (run L es) = training L \<and>
         forward_pre_hooks (run L es) = forward_pre_hooks L \<and>
         hooks_settled (run L es) \<and> cache_coherent (run L es)"
  using assms
proof (induction es arbitrary: L)
  case Nil
  then show ?case by (simp add: run_def)
next
  case (Cons e es)
  have e: "incremental_activity e" and es: "list_all incremental_activity es"
    using Cons.prems(3) by simp_all
  note p = perform_incremental_activity [OF Cons.prems(1,2) e]
  have "run L (e # es) = run (perform L e) es" by (simp add: run_def)
  then show ?case
    using Cons.IH [of "perform L e"] p es by simp
qed

text \<open>
  C8. Let a layer with settled pre-hooks and a coherent cache go through any incremental
  activity and then \<open>clear_buffer\<close>. On every sequence of inputs its incremental outputs
  (and errors) are those of a layer with the same parameters, kernel width, mode and
  hooks on which \<open>incremental_forward\<close> was never called, so that it has no buffer and an
  empty cache.
\<close>

theorem clear_buffer_forgets:
  fixes L F :: "'a::comm_semiring_0 layer"
  assumes "hooks_settled L" and "cache_coherent L"
    and "list_all incremental_activity es"
    and "kernel_size F = kernel_size L" and "weight F = weight L" and "bias F = bias L"
    and "training F = training L" and "forward_pre_hooks F = forward_pre_hooks L"
    and "input_buffer F = None" and "linearized_weight F = None"
  shows "snd (incremental_steps (clear_buffer (run L es)) xs) = snd (incremental_steps F xs)"
proof -
  note r = run_incremental_activity [OF assms(1,2,3)]
  have "alike (clear_buffer (run L es)) F"
    using r assms(4-10)
    by (auto simp: alike_def clear_buffer_def hooks_settled_def cache_coherent_def
        split: option.splits)
  then show ?thesis by (rule alike_steps)
qed

theorem clear_buffer_forgets_witness:
  "hooks_settled two_channel_layer \<and> cache_coherent two_channel_layer \<and>
   list_all incremental_activity
     [IncrementalForward [[[9, 9]], [[8, 8 :: int]]], ReorderBuffer [1, 0],
      IncrementalForward [[[1, 1]], [[2, 2]]]] \<and>
   input_buffer two_channel_layer = None \<and> linearized_weight two_channel_layer = None \<and>
   snd (incremental_steps
          (clear_buffer (run two_channel_layer
             [IncrementalForward [[[9, 9]], [[8, 8]]], ReorderBuffer [1, 0],
              IncrementalForward [[[1, 1]], [[2, 2]]]]))
          [[[[3, 4]], [[7, 8]]], [[[1, 0]], [[0, 1]]]]) =
     Inr [[[[34, 77]], [[70, 161]]], [[[30, 79]], [[61, 158]]]] \<and>
   snd (incremental_steps two_channel_layer [[[[3, 4]], [[7, 8]]], [[[1, 0]], [[0, 1]]]]) =
     Inr [[[[34, 77]], [[70, 161]]], [[[30, 79]], [[61, 158]]]] \<and>
   snd (incremental_steps
          (run two_channel_layer
             [IncrementalForward [[[9, 9]], [[8, 8]]], ReorderBuffer [1, 0],
              IncrementalForward [[[1, 1]], [[2, 2]]]])
          [[[[3, 4]], [[7, 8]]], [[[1, 0]], [[0, 1]]]]) =
     Inr [[[[81, 232]], [[129, 352]]], [[[35, 96]], [[71, 192]]]]"
proof -
  let ?L = "two_channel_layer"
  let ?es = "[IncrementalForward [[[9, 9]], [[8, 8 :: int]]], ReorderBuffer [1, 0],
      IncrementalForward [[[1, 1]], [[2, 2]]]]"
  let ?xs = "[[[[3, 4]], [[7, 8]]], [[[1, 0]], [[0, 1 :: int]]]]"
  have h: "hooks_settled ?L" "cache_coherent ?L" "list_all incremental_activity ?es"
    and f: "kernel_size ?L = kernel_size ?L" "weight ?L = weight ?L" "bias ?L = bias ?L"
      "training ?L = training ?L" "forward_pre_hooks ?L = forward_pre_hooks ?L"
      "input_buffer ?L = None" "linearized_weight ?L = None"
    by (simp_all add: two_channel_layer_def hooks_settled_def cache_coherent_def)
  have fresh: "snd (incremental_steps ?L ?xs) =
      Inr [[[[34, 77]], [[70, 161]]], [[[30, 79]], [[61, 158]]]]"
    by code_simp
  have used: "snd (incremental_steps (run ?L ?es) ?xs) =
      Inr [[[[81, 232]], [[129, 352]]], [[[35, 96]], [[71, 192]]]]"
    by code_simp
  from clear_buffer_forgets [OF h f, of ?xs] fresh
  have "snd (incremental_steps (clear_buffer (run ?L ?es)) ?xs) =
      Inr [[[[34, 77]], [[70, 161]]], [[[30, 79]], [[61, 158]]]]"
    by simp
  with h f fresh used show ?thesis by blast
qed

section \<open>The cache of the linearised weight\<close>

lemma run_snoc: "run L (es @ [e]) = perform (run L es) e"
  by (simp add: run_def)

lemma run_append: "run L (es @ es') = run (run L es) es'"
  by (simp add: run_def)

lemma run_Cons: "run L (e # es) = run (perform L e) es"
  by (simp add: run_def)

lemma clear_linearized_weight_fields [simp]:
  "linearized_weight (clear_linearized_weight L) = None"
  "backward_hooks (clear_linearized_weight L) = backward_hooks L"
  "graph_hooks (clear_linearized_weight L) = graph_hooks L"
  "weight (clear_linearized_weight L) = weight L"
  "linearized_weight_shared (clear_linearized_weight L) = linearized_weight_shared L"
  "clear_linearized_weight (clear_linearized_weight L) = clear_linearized_weight L"
  by (simp_all add: clear_linearized_weight_def)

text \<open>Running the attached hooks: nothing without hooks, the cleared layer otherwise.\<close>

lemma run_backward_hooks:
  "fold run_backward_hook hs L = (if hs = [] then L else clear_linearized_weight L)"
proof (induction hs arbitrary: L)
  case Nil
  then show ?case by simp
next
  case (Cons h hs)
  then show ?case by (cases h) simp
qed

lemma hooks_all_clear: "ClearLinearizedWeight \<in> set hs \<longleftrightarrow> hs \<noteq> []"
proof (cases hs)
  case Nil
  then show ?thesis by simp
next
  case (Cons h hs')
  then show ?thesis by (cases h) simp
qed

lemma backward_hooks_perform [simp]: "backward_hooks (perform L e) = backward_hooks L"
proof (cases e)
  case (ReorderBuffer new_order)
  then show ?thesis by (auto simp: reorder_buffer_def split: option.splits)
next
  case (Call x recorded)
  then show ?thesis by (simp add: Let_def split: sum.splits)
qed (simp_all add: clear_buffer_def run_backward_hooks)

lemma backward_hooks_run [simp]: "backward_hooks (run L es) = backward_hooks L"
  by (induction es arbitrary: L) (simp_all add: run_def)

lemma init_registers: "ClearLinearizedWeight \<in> set (backward_hooks (init base))"
  by (simp add: init_def)

lemma init_cache: "linearized_weight (init base) = None"
  by (simp add: init_def)

text \<open>
  The results of \<open>__call__\<close> keep their hooks: later events add results, and a backward
  pass through a result runs what was attached to it.
\<close>

lemma reached_append:
  "reached (g @ g') results = reached g results @
     concat (map (\<lambda>(i, hooks). if i \<in> set results then hooks else [])
       (enumerate (length g) g'))"
  by (simp add: reached_def enumerate_append_eq)

lemma reached_result:
  "length g \<in> set results \<Longrightarrow> set hooks \<subseteq> set (reached (g @ hooks # g') results)"
  by (auto simp: reached_append)

lemma graph_hooks_grow: "\<exists>more. graph_hooks (perform L e) = graph_hooks L @ more"
proof (cases e)
  case (ReorderBuffer new_order)
  then show ?thesis by (auto simp: reorder_buffer_def split: option.splits)
next
  case (Call x recorded)
  then show ?thesis by (simp add: Let_def split: sum.splits)
qed (simp_all add: clear_buffer_def run_backward_hooks)

lemma graph_hooks_grow_run: "\<exists>more. graph_hooks (run L es) = graph_hooks L @ more"
proof (induction es arbitrary: L)
  case Nil
  then show ?case by (simp add: run_def)
next
  case (Cons e es)
  obtain m1 where "graph_hooks (perform L e) = graph_hooks L @ m1"
    using graph_hooks_grow [of L e] by blast
  moreover obtain m2 where "graph_hooks (run (perform L e) es) = graph_hooks (perform L e) @ m2"
    using Cons.IH [of "perform L e"] by blast
  ultimately show ?case by (simp add: run_Cons)
qed

lemma backward_clears:
  "ClearLinearizedWeight \<in> set (reached (graph_hooks L) results) \<Longrightarrow>
   linearized_weight (perform L (Backward results)) = None"
  by (auto simp: run_backward_hooks)

lemma backward_leaves:
  "\<not> clears L (Backward results) \<Longrightarrow>
   linearized_weight (perform L (Backward results)) = linearized_weight L"
  by (auto simp: run_backward_hooks hooks_all_clear)

lemma call_attaches:
  assumes "forward (run_forward_pre_hooks L) x = Inr y"
  shows "graph_hooks (perform L (Call x True)) = graph_hooks L @ [backward_hooks L]"
  using assms by (simp add: Let_def)

lemma call_then_backward:
  assumes "ClearLinearizedWeight \<in> set (backward_hooks L)"
    and "forward (run_forward_pre_hooks L) x = Inr y"
    and "length (graph_hooks L) \<in> set results"
  shows "linearized_weight (run L (Call x True # mid @ [Backward results])) = None"
proof -
  obtain more where "graph_hooks (run (perform L (Call x True)) mid) =
      graph_hooks L @ backward_hooks L # more"
    using graph_hooks_grow_run [of "perform L (Call x True)" mid] call_attaches [OF assms(2)]
    by auto
  then have "ClearLinearizedWeight \<in>
      set (reached (graph_hooks (run (perform L (Call x True)) mid)) results)"
    using reached_result [OF assms(3), of "backward_hooks L" more] assms(1) by auto
  then show ?thesis
    using backward_clears by (simp only: run_Cons run_snoc)
qed

lemma incremental_forward_cache:
  "\<not> training L \<Longrightarrow>
   linearized_weight (fst (incremental_forward L x)) =
     Some (fst (get_linearized_weight (run_forward_pre_hooks L)))"
  by (cases "kernel_size L > 1")
    (simp_all add: incremental_forward_wide incremental_forward_narrow Let_def)

lemma incremental_forward_shared:
  "\<not> training L \<Longrightarrow>
   linearized_weight_shared (fst (incremental_forward L x)) =
     linearized_weight_shared (snd (get_linearized_weight (run_forward_pre_hooks L)))"
  by (cases "kernel_size L > 1")
    (simp_all add: incremental_forward_wide incremental_forward_narrow Let_def)

lemma incremental_forward_weight:
  "\<not> training L \<Longrightarrow>
   weight (fst (incremental_forward L x)) = weight (run_forward_pre_hooks L)"
  by (cases "kernel_size L > 1")
    (simp_all add: incremental_forward_wide incremental_forward_narrow Let_def)

lemma refill:
  assumes "linearized_weight L = None" "\<not> training L"
  shows "linearized_weight (perform L (IncrementalForward x)) =
         Some (linearize (weight (run_forward_pre_hooks L)))"
  using assms incremental_forward_cache [OF assms(2), of x]
  by (simp add: get_linearized_weight_empty)

lemma no_clearing_snoc:
  "no_clearing L (es @ [e]) \<longleftrightarrow> no_clearing L es \<and> \<not> clears (run L es) e"
  by (induction es arbitrary: L) (simp_all add: run_def)

lemma get_linearized_weight_shared_kept:
  "linearized_weight L = Some old \<Longrightarrow>
   linearized_weight_shared (snd (get_linearized_weight L)) = linearized_weight_shared L"
  by (simp add: get_linearized_weight_def)

lemma run_forward_pre_hooks_shared:
  "linearized_weight_shared (run_forward_pre_hooks L) \<Longrightarrow> linearized_weight_shared L"
  by (simp add: run_forward_pre_hooks_def split: prod.splits)

text \<open>Where a cache entry comes from: this call computed it, or it was there before.\<close>

lemma cache_after_event:
  fixes L :: "'a::comm_semiring_0 layer"
  assumes "linearized_weight (perform L e) = Some lw"
  shows "(linearized_weight L = None \<and> \<not> training L \<and> (\<exists>x. e = IncrementalForward x) \<and>
          lw = linearize (weight (run_forward_pre_hooks L))) \<or>
         (\<not> clears L e \<and>
          (\<exists>old. linearized_weight L = Some old \<and>
             (lw = old \<or> (in_place e \<and> linearized_weight_shared L))) \<and>
          (linearized_weight_shared (perform L e) \<longrightarrow> linearized_weight_shared L))"
proof (cases e)
  case (Forward x)
  then show ?thesis using assms by simp
next
  case (Call x recorded)
  then show ?thesis
    using assms run_forward_pre_hooks_shared [of L]
    by (auto simp: Let_def split: sum.splits if_splits)
next
  case (IncrementalForward x)
  show ?thesis
  proof (cases "training L")
    case True
    then show ?thesis
      using assms IncrementalForward by (simp add: incremental_forward_training)
  next
    case False
    have lw: "lw = fst (get_linearized_weight (run_forward_pre_hooks L))"
      using assms IncrementalForward incremental_forward_cache [OF False, of x] by simp
    show ?thesis
    proof (cases "linearized_weight L")
      case None
      then have "lw = linearize (weight (run_forward_pre_hooks L))"
        using lw by (simp add: get_linearized_weight_empty)
      then show ?thesis using None False IncrementalForward by simp
    next
      case (Some c)
      then have c: "linearized_weight (run_forward_pre_hooks L) = Some c" by simp
      have "lw = c"
        using lw get_linearized_weight_cached [OF c] by simp
      moreover have "linearized_weight_shared (perform L e) \<longrightarrow> linearized_weight_shared L"
        using IncrementalForward incremental_forward_shared [OF False, of x]
          get_linearized_weight_shared_kept [OF c] run_forward_pre_hooks_shared [of L]
        by simp
      ultimately show ?thesis using Some IncrementalForward by simp
    qed
  qed
next
  case ClearBuffer
  then show ?thesis using assms by (simp add: clear_buffer_def)
next
  case (ReorderBuffer new_order)
  then show ?thesis
    using assms by (auto simp: reorder_buffer_def split: option.splits if_splits)
next
  case (Backward results)
  then show ?thesis
    using assms
    by (auto simp: run_backward_hooks hooks_all_clear split: if_splits)
next
  case (Update w b)
  then show ?thesis using assms by simp
next
  case (UpdateInPlace w b)
  then show ?thesis
    using assms by (auto simp: split: if_splits)
next
  case (SetTraining t)
  then show ?thesis using assms by simp
qed

text \<open>A shared cache is current, after every event.\<close>

lemma view_current_hooks: "view_current L \<Longrightarrow> view_current (run_forward_pre_hooks L)"
  by (auto simp: view_current_def run_forward_pre_hooks_def split: option.splits prod.splits)

lemma view_current_get: "view_current L \<Longrightarrow> view_current (snd (get_linearized_weight L))"
  by (auto simp: view_current_def get_linearized_weight_def Let_def split: option.splits)

lemma view_current_buffer: "view_current (L\<lparr>input_buffer := b\<rparr>) = view_current L"
  by (simp add: view_current_def cong: option.case_cong)

lemma view_current_graph: "view_current (L\<lparr>graph_hooks := g\<rparr>) = view_current L"
  by (simp add: view_current_def cong: option.case_cong)

lemma view_current_incremental_forward:
  assumes "view_current L"
  shows "view_current (fst (incremental_forward L x))"
proof (cases "training L")
  case True
  then show ?thesis using assms by (simp add: incremental_forward_training)
next
  case False
  note v = view_current_get [OF view_current_hooks [OF assms]]
  show ?thesis
    using v
    by (cases "kernel_size L > 1")
      (simp_all add: incremental_forward_wide [OF False] incremental_forward_narrow [OF False]
        Let_def view_current_buffer)
qed

lemma view_current_perform:
  fixes L :: "'a::comm_semiring_0 layer"
  assumes "view_current L"
  shows "view_current (perform L e)"
proof (cases e)
  case (Call x recorded)
  then show ?thesis
    using view_current_hooks [OF assms]
    by (simp add: Let_def view_current_graph split: sum.splits)
next
  case (IncrementalForward x)
  then show ?thesis using view_current_incremental_forward [OF assms] by simp
next
  case (ReorderBuffer new_order)
  then show ?thesis
    using assms by (auto simp: reorder_buffer_def view_current_buffer split: option.splits)
next
  case (Backward results)
  have "view_current (clear_linearized_weight L)"
    by (simp add: view_current_def)
  then show ?thesis
    using assms Backward by (simp add: run_backward_hooks)
next
  case (UpdateInPlace w b)
  then show ?thesis
    using assms by (auto simp: view_current_def split: option.splits)
qed (use assms in \<open>auto simp: view_current_def clear_buffer_def split: option.splits\<close>)

lemma view_current_run:
  fixes L :: "'a::comm_semiring_0 layer"
  shows "view_current L \<Longrightarrow> view_current (run L es)"
  by (induction es arbitrary: L) (simp_all add: run_def view_current_perform)

text \<open>The history of a cache entry, over a whole sequence of events.\<close>

lemma cache_origin:
  fixes L :: "'a::comm_semiring_0 layer"
  assumes "linearized_weight L = None"
  shows "linearized_weight (run L es) = Some lw \<Longrightarrow>
         \<exists>pre x post. es = pre @ IncrementalForward x # post \<and>
           linearized_weight (run L pre) = None \<and> \<not> training (run L pre) \<and>
           no_clearing (run L (pre @ [IncrementalForward x])) post \<and>
           (linearized_weight_shared (run L es) \<longrightarrow>
              linearized_weight_shared (run L (pre @ [IncrementalForward x]))) \<and>
           (list_all (\<lambda>e. \<not> in_place e) post \<or>
            \<not> linearized_weight_shared (run L (pre @ [IncrementalForward x])) \<longrightarrow>
              lw = linearize (weight (run_forward_pre_hooks (run L pre))))"
proof (induction es arbitrary: lw rule: rev_induct)
  case Nil
  then show ?case using assms by (simp add: run_def)
next
  case (snoc e es)
  let ?L = "run L es"
  from snoc.prems have now: "linearized_weight (perform ?L e) = Some lw"
    by (simp add: run_snoc)
  from cache_after_event [OF now]
  consider (filled) x where "linearized_weight ?L = None" "\<not> training ?L"
        "e = IncrementalForward x" "lw = linearize (weight (run_forward_pre_hooks ?L))"
    | (kept) old where "\<not> clears ?L e" "linearized_weight ?L = Some old"
        "lw = old \<or> (in_place e \<and> linearized_weight_shared ?L)"
        "linearized_weight_shared (perform ?L e) \<longrightarrow> linearized_weight_shared ?L"
    by blast
  then show ?case
  proof cases
    case filled
    have "es @ [e] = es @ IncrementalForward x # []" using filled(3) by simp
    moreover have "no_clearing (run L (es @ [IncrementalForward x])) []" by simp
    ultimately show ?thesis
      using filled(1,2,4) filled(3) by blast
  next
    case kept
    from snoc.IH [OF kept(2)] obtain pre x post where
      p: "es = pre @ IncrementalForward x # post"
        "linearized_weight (run L pre) = None" "\<not> training (run L pre)"
        "no_clearing (run L (pre @ [IncrementalForward x])) post"
        "linearized_weight_shared ?L \<longrightarrow>
           linearized_weight_shared (run L (pre @ [IncrementalForward x]))"
        "list_all (\<lambda>e. \<not> in_place e) post \<or>
           \<not> linearized_weight_shared (run L (pre @ [IncrementalForward x])) \<longrightarrow>
           old = linearize (weight (run_forward_pre_hooks (run L pre)))"
      by blast
    have split: "es @ [e] = pre @ IncrementalForward x # (post @ [e])"
      using p(1) by simp
    have "run (run L (pre @ [IncrementalForward x])) post = ?L"
      using p(1) by (simp add: run_append [symmetric])
    then have nc: "no_clearing (run L (pre @ [IncrementalForward x])) (post @ [e])"
      using p(4) kept(1) by (simp add: no_clearing_snoc)
    have sh: "linearized_weight_shared (run L (es @ [e])) \<longrightarrow>
        linearized_weight_shared (run L (pre @ [IncrementalForward x]))"
      using kept(4) p(5) by (simp add: run_snoc)
    have content: "lw = linearize (weight (run_forward_pre_hooks (run L pre)))"
      if a: "list_all (\<lambda>e. \<not> in_place e) (post @ [e]) \<or>
        \<not> linearized_weight_shared (run L (pre @ [IncrementalForward x]))"
    proof -
      have "\<not> (in_place e \<and> linearized_weight_shared ?L)"
        using a p(5) by auto
      then have "lw = old" using kept(3) by blast
      moreover have "list_all (\<lambda>e. \<not> in_place e) post \<or>
          \<not> linearized_weight_shared (run L (pre @ [IncrementalForward x]))"
        using a by auto
      ultimately show ?thesis using p(6) by blast
    qed
    show ?thesis
      using split p(2,3) nc sh content by blast
  qed
qed

lemma refill_shared:
  assumes "linearized_weight L = None" "\<not> training L"
  shows "linearized_weight_shared (perform L (IncrementalForward x)) \<longleftrightarrow>
         size1 (weight (run_forward_pre_hooks L)) = 1 \<or> size2 (weight (run_forward_pre_hooks L)) = 1"
  using assms incremental_forward_shared [OF assms(2), of x]
  by (simp add: get_linearized_weight_def Let_def)

lemma view_current_init: "view_current (init base)"
  by (simp add: view_current_def init_def)

text \<open>
  C9, as the code has it. \<open>__init__\<close> empties the cache and registers
  \<open>_clear_linearized_weight\<close> as a backward hook, and no event removes it. Take any
  sequence of events on a layer built by \<open>__init__\<close>.

  \<^item> A backward pass through the result of a \<open>__call__\<close> of the layer that was recorded
    in the autograd graph leaves the cache empty, whatever happened between the call and
    the pass.
  \<^item> An \<open>incremental_forward\<close> call in inference mode that finds the cache empty fills it
    with the linearisation of the weight of that moment (after the pre-hooks).
  \<^item> A backward pass through no result to which the hook is attached (after \<open>forward\<close>
    was called directly, or after a call with nothing recorded) leaves the cache as it is.
  \<^item> When the cache is not empty: if it shares the weight's storage, it is the
    linearisation of the weight the layer has now. In any case an \<open>incremental_forward\<close>
    call in inference mode found it empty and filled it, no backward pass has cleared it
    since, it shares the weight's storage from that call on exactly when the weight then
    has one input channel or kernel width 1, and it is the linearisation of the weight of
    that call when nothing was written in place since, or when it is a copy.
\<close>

theorem cache_follows_backward:
  fixes base :: "'a::comm_semiring_0 layer"
  shows
    "ClearLinearizedWeight \<in> set (backward_hooks (run (init base) es)) \<and>
     linearized_weight (init base) = None \<and>
     (\<forall>x y mid results.
        forward (run_forward_pre_hooks (run (init base) es)) x = Inr y \<and>
        length (graph_hooks (run (init base) es)) \<in> set results \<longrightarrow>
        linearized_weight (run (init base) (es @ Call x True # mid @ [Backward results])) =
          None) \<and>
     (\<forall>x. linearized_weight (run (init base) es) = None \<and> \<not> training (run (init base) es) \<longrightarrow>
        linearized_weight (run (init base) (es @ [IncrementalForward x])) =
          Some (linearize (weight (run_forward_pre_hooks (run (init base) es))))) \<and>
     (\<forall>results. \<not> clears (run (init base) es) (Backward results) \<longrightarrow>
        linearized_weight (run (init base) (es @ [Backward results])) =
          linearized_weight (run (init base) es)) \<and>
     (\<forall>lw. linearized_weight (run (init base) es) = Some lw \<longrightarrow>
        (linearized_weight_shared (run (init base) es) \<longrightarrow>
           lw = linearize (weight (run (init base) es))) \<and>
        (\<exists>pre x post. es = pre @ IncrementalForward x # post \<and>
           linearized_weight (run (init base) pre) = None \<and>
           \<not> training (run (init base) pre) \<and>
           no_clearing (run (init base) (pre @ [IncrementalForward x])) post \<and>
           (linearized_weight_shared (run (init base) (pre @ [IncrementalForward x])) \<longleftrightarrow>
              size1 (weight (run_forward_pre_hooks (run (init base) pre))) = 1 \<or>
              size2 (weight (run_forward_pre_hooks (run (init base) pre))) = 1) \<and>
           (list_all (\<lambda>e. \<not> in_place e) post \<or>
            \<not> linearized_weight_shared (run (init base) (pre @ [IncrementalForward x])) \<longrightarrow>
              lw = linearize (weight (run_forward_pre_hooks (run (init base) pre))))))"
proof (intro conjI allI impI)
  let ?L = "run (init base) es"
  show "ClearLinearizedWeight \<in> set (backward_hooks ?L)"
    using init_registers [of base] by simp
  show "linearized_weight (init base) = None" by (rule init_cache)
  show "linearized_weight (run (init base) (es @ Call x True # mid @ [Backward results])) = None"
    if "forward (run_forward_pre_hooks ?L) x = Inr y \<and> length (graph_hooks ?L) \<in> set results"
    for x y mid results
  proof -
    have "ClearLinearizedWeight \<in> set (backward_hooks ?L)"
      using init_registers [of base] by simp
    then show ?thesis
      using call_then_backward [of ?L x y results mid] that by (simp add: run_append)
  qed
  show "linearized_weight (run (init base) (es @ [IncrementalForward x])) =
      Some (linearize (weight (run_forward_pre_hooks ?L)))"
    if "linearized_weight ?L = None \<and> \<not> training ?L" for x
    using refill [of ?L x] that by (simp add: run_snoc)
  show "linearized_weight (run (init base) (es @ [Backward results])) = linearized_weight ?L"
    if "\<not> clears ?L (Backward results)" for results
    using backward_leaves [OF that] by (simp add: run_snoc)
  show "lw = linearize (weight ?L)"
    if "linearized_weight ?L = Some lw" "linearized_weight_shared ?L" for lw
    using view_current_run [OF view_current_init, of base es] that
    by (simp add: view_current_def)
  show "\<exists>pre x post. es = pre @ IncrementalForward x # post \<and>
           linearized_weight (run (init base) pre) = None \<and>
           \<not> training (run (init base) pre) \<and>
           no_clearing (run (init base) (pre @ [IncrementalForward x])) post \<and>
           (linearized_weight_shared (run (init base) (pre @ [IncrementalForward x])) \<longleftrightarrow>
              size1 (weight (run_forward_pre_hooks (run (init base) pre))) = 1 \<or>
              size2 (weight (run_forward_pre_hooks (run (init base) pre))) = 1) \<and>
           (list_all (\<lambda>e. \<not> in_place e) post \<or>
            \<not> linearized_weight_shared (run (init base) (pre @ [IncrementalForward x])) \<longrightarrow>
              lw = linearize (weight (run_forward_pre_hooks (run (init base) pre))))"
    if "linearized_weight ?L = Some lw" for lw
  proof -
    from cache_origin [OF init_cache that] obtain pre x post where
      p: "es = pre @ IncrementalForward x # post"
        "linearized_weight (run (init base) pre) = None" "\<not> training (run (init base) pre)"
        "no_clearing (run (init base) (pre @ [IncrementalForward x])) post"
        "list_all (\<lambda>e. \<not> in_place e) post \<or>
           \<not> linearized_weight_shared (run (init base) (pre @ [IncrementalForward x])) \<longrightarrow>
           lw = linearize (weight (run_forward_pre_hooks (run (init base) pre)))"
      by blast
    have "linearized_weight_shared (run (init base) (pre @ [IncrementalForward x])) \<longleftrightarrow>
        size1 (weight (run_forward_pre_hooks (run (init base) pre))) = 1 \<or>
        size2 (weight (run_forward_pre_hooks (run (init base) pre))) = 1"
      using refill_shared [OF p(2,3), of x] by (simp add: run_snoc)
    with p show ?thesis by blast
  qed
qed

theorem cache_follows_backward_witness:
  "ClearLinearizedWeight \<in> set (backward_hooks (run (init scenario_base)
      [IncrementalForward [[[1]]], SetTraining True])) \<and>
   linearized_weight (run (init scenario_base)
      [IncrementalForward [[[1]]], SetTraining True]) = Some [[1, 2, 3]] \<and>
   forward (run_forward_pre_hooks (run (init scenario_base)
      [IncrementalForward [[[1]]], SetTraining True])) [[[1], [2], [3]]] =
     Inr [[[3], [8], [14], [8], [3]]] \<and>
   length (graph_hooks (run (init scenario_base)
      [IncrementalForward [[[1]]], SetTraining True])) \<in> set [0] \<and>
   linearized_weight (run (init scenario_base)
      [IncrementalForward [[[1]]], SetTraining True, Call [[[1], [2], [3]]] True,
       SetTraining False, IncrementalForward [[[2]]]]) = Some [[1, 2, 3]] \<and>
   linearized_weight (run (init scenario_base)
      [IncrementalForward [[[1]]], SetTraining True, Call [[[1], [2], [3]]] True,
       SetTraining False, IncrementalForward [[[2]]], Backward [0]]) = None \<and>
   \<not> training (run (init scenario_base)
      [IncrementalForward [[[1]]], SetTraining True, Call [[[1], [2], [3]]] True,
       SetTraining False, IncrementalForward [[[2]]], Backward [0],
       UpdateInPlace [[[4, 5, 6]]] (Some [0])]) \<and>
   linearized_weight (run (init scenario_base)
      [IncrementalForward [[[1]]], SetTraining True, Call [[[1], [2], [3]]] True,
       SetTraining False, IncrementalForward [[[2]]], Backward [0],
       UpdateInPlace [[[4, 5, 6]]] (Some [0]), IncrementalForward [[[3]]]]) =
     Some [[4, 5, 6]] \<and>
   \<not> clears (run (init scenario_base) [IncrementalForward [[[1]]], SetTraining True,
      Forward [[[1], [2], [3]]]]) (Backward []) \<and>
   linearized_weight (run (init scenario_base) [IncrementalForward [[[1]]], SetTraining True,
      Forward [[[1], [2], [3]]], Backward []]) = Some [[1, 2, 3]] \<and>
   linearized_weight_shared (run (init scenario_base)
      [IncrementalForward [[[1]]], UpdateInPlace [[[4, 5, 6]]] (Some [0])]) \<and>
   linearized_weight (run (init scenario_base)
      [IncrementalForward [[[1]]], UpdateInPlace [[[4, 5, 6]]] (Some [0])]) =
     Some (linearize (weight (run (init scenario_base)
      [IncrementalForward [[[1]]], UpdateInPlace [[[4, 5, 6]]] (Some [0])]))) \<and>
   weight (run (init two_channel_base) [IncrementalForward [[[3, 4]], [[7, 8]]],
      UpdateInPlace [[[1, 1, 1], [1, 1, 1]], [[2, 2, 2], [2, 2, 2]]] (Some [0, 0])]) =
     [[[1, 1, 1], [1, 1, 1]], [[2, 2, 2], [2, 2, 2]]] \<and>
   linearized_weight (run (init two_channel_base) [IncrementalForward [[[3, 4]], [[7, 8]]],
      UpdateInPlace [[[1, 1, 1], [1, 1, 1]], [[2, 2, 2], [2, 2, 2]]] (Some [0, 0])]) =
     Some (linearize (weight (run_forward_pre_hooks (run (init two_channel_base) []))))"
proof -
  let ?S = "init scenario_base"
  let ?T = "init two_channel_base"
  let ?x = "[[[1], [2], [3]]] :: int list list list"
  let ?tr = "[IncrementalForward [[[1]]], SetTraining True] :: int event list"
  let ?mid = "[SetTraining False, IncrementalForward [[[2]]]] :: int event list"
  let ?up = "UpdateInPlace [[[4, 5, 6]]] (Some [0]) :: int event"
  let ?es5 = "[IncrementalForward [[[1]]], SetTraining True, Call ?x True,
       SetTraining False, IncrementalForward [[[2]]], Backward [0], ?up]"
  let ?fw = "[IncrementalForward [[[1]]], SetTraining True, Forward ?x] :: int event list"
  let ?sh = "[IncrementalForward [[[1]]], ?up]"
  let ?w2 = "[[[1, 1, 1], [1, 1, 1]], [[2, 2, 2], [2, 2, 2]]] :: int list list list"
  let ?x2 = "[[[3, 4]], [[7, 8]]] :: int list list list"
  let ?cp = "[IncrementalForward ?x2, UpdateInPlace ?w2 (Some [0, 0])]"
  have c1: "ClearLinearizedWeight \<in> set (backward_hooks (run ?S ?tr))"
    using cache_follows_backward [of scenario_base ?tr] by blast
  have c2: "linearized_weight (run ?S ?tr) = Some [[1, 2, 3]]" by code_simp
  have c3: "forward (run_forward_pre_hooks (run ?S ?tr)) ?x = Inr [[[3], [8], [14], [8], [3]]]"
    by code_simp
  have c4: "length (graph_hooks (run ?S ?tr)) \<in> set [0]" by code_simp
  have c5: "linearized_weight (run ?S [IncrementalForward [[[1]]], SetTraining True,
      Call ?x True, SetTraining False, IncrementalForward [[[2]]]]) = Some [[1, 2, 3]]"
    by code_simp
  have "linearized_weight (run ?S (?tr @ Call ?x True # ?mid @ [Backward [0]])) = None"
    using cache_follows_backward [of scenario_base ?tr] c3 c4 by blast
  then have c6: "linearized_weight (run ?S [IncrementalForward [[[1]]], SetTraining True,
      Call ?x True, SetTraining False, IncrementalForward [[[2]]], Backward [0]]) = None"
    by simp
  have c7: "\<not> training (run ?S ?es5)" by code_simp
  have e7: "linearized_weight (run ?S ?es5) = None" by code_simp
  have "linearized_weight (run ?S (?es5 @ [IncrementalForward [[[3]]]])) =
      Some (linearize (weight (run_forward_pre_hooks (run ?S ?es5))))"
    using cache_follows_backward [of scenario_base ?es5] c7 e7 by blast
  moreover have "linearize (weight (run_forward_pre_hooks (run ?S ?es5))) = [[4, 5, 6]]"
    by code_simp
  ultimately have c8: "linearized_weight (run ?S [IncrementalForward [[[1]]], SetTraining True,
      Call ?x True, SetTraining False, IncrementalForward [[[2]]], Backward [0], ?up,
      IncrementalForward [[[3]]]]) = Some [[4, 5, 6]]"
    by simp
  have c9: "\<not> clears (run ?S ?fw) (Backward [])" by code_simp
  have e10: "linearized_weight (run ?S ?fw) = Some [[1, 2, 3]]" by code_simp
  have "linearized_weight (run ?S (?fw @ [Backward []])) = linearized_weight (run ?S ?fw)"
    using cache_follows_backward [of scenario_base ?fw] c9 by blast
  then have c10: "linearized_weight (run ?S [IncrementalForward [[[1]]], SetTraining True,
      Forward ?x, Backward []]) = Some [[1, 2, 3]]"
    using e10 by simp
  have c11: "linearized_weight_shared (run ?S ?sh)" by code_simp
  have e12: "linearized_weight (run ?S ?sh) = Some [[4, 5, 6]]" by code_simp
  have "[[4, 5, 6]] = linearize (weight (run ?S ?sh))"
    using cache_follows_backward [of scenario_base ?sh] c11 e12 by blast
  then have c12: "linearized_weight (run ?S ?sh) = Some (linearize (weight (run ?S ?sh)))"
    using e12 by simp
  have c13: "weight (run ?T ?cp) = ?w2" by code_simp
  have e14: "linearized_weight (run ?T ?cp) = Some [[1, 4, 2, 5, 3, 6], [7, 10, 8, 11, 9, 12]]"
    by code_simp
  from cache_follows_backward [of two_channel_base ?cp] e14
  obtain pre x post where
    p: "?cp = pre @ IncrementalForward x # post"
      "linearized_weight_shared (run ?T (pre @ [IncrementalForward x])) \<longleftrightarrow>
         size1 (weight (run_forward_pre_hooks (run ?T pre))) = 1 \<or>
         size2 (weight (run_forward_pre_hooks (run ?T pre))) = 1"
      "list_all (\<lambda>e. \<not> in_place e) post \<or>
         \<not> linearized_weight_shared (run ?T (pre @ [IncrementalForward x])) \<longrightarrow>
         [[1, 4, 2, 5, 3, 6], [7, 10, 8, 11, 9, 12]] =
           linearize (weight (run_forward_pre_hooks (run ?T pre)))"
    by blast
  have pre: "pre = []"
    using p(1) by (auto simp: Cons_eq_append_conv)
  have "\<not> (size1 (weight (run_forward_pre_hooks (run ?T []))) = 1 \<or>
            size2 (weight (run_forward_pre_hooks (run ?T []))) = 1)"
    by code_simp
  then have "[[1, 4, 2, 5, 3, 6], [7, 10, 8, 11, 9, 12]] =
      linearize (weight (run_forward_pre_hooks (run ?T [])))"
    using p(2,3) pre by blast
  then have c14: "linearized_weight (run ?T ?cp) =
      Some (linearize (weight (run_forward_pre_hooks (run ?T []))))"
    using e14 by simp
  show ?thesis
    using c1 c2 c3 c4 c5 c6 c7 c8 c9 c10 c11 c12 c13 c14 by blast
qed

text \<open>
  The claim as stated fails on a layer built by \<open>__init__\<close>. On the scenario layer, a
  backward pass after \<open>forward\<close> was called directly (not through \<open>__call__\<close>, so the
  pass runs through no result with the hook attached) leaves the cache filled. On the same
  layer, with its one input channel, the cache shares the weight's storage: after an
  in-place update to 4, 5, 6 it reads 4, 5, 6, no longer the linearisation 1, 2, 3 of the
  weight it was computed from. On the layer with two input channels the cache is a copy:
  after a direct \<open>forward\<close>, a backward pass and an in-place update, the next
  \<open>_get_linearized_weight\<close> serves the linearisation computed before the backward pass,
  not that of the weight the layer has now.
\<close>

theorem cache_survives_backward_counterexample:
  "linearized_weight (run (init scenario_base)
      [IncrementalForward [[[1]]], SetTraining True, Forward [[[1], [2], [3]]],
       Backward []]) = Some [[1, 2, 3]] \<and>
   linearized_weight (run (init scenario_base)
      [IncrementalForward [[[1]]], UpdateInPlace [[[4, 5, 6]]] (Some [0])]) =
     Some [[4, 5, 6]] \<and>
   linearize (weight (run_forward_pre_hooks (init scenario_base))) = [[1, 2, 3]] \<and>
   fst (get_linearized_weight (run_forward_pre_hooks (run (init two_channel_base)
      [IncrementalForward [[[3, 4]], [[7, 8]]], SetTraining True,
       Forward [[[3, 4]], [[7, 8]]], Backward [],
       UpdateInPlace [[[1, 1, 1], [1, 1, 1]], [[2, 2, 2], [2, 2, 2]]] (Some [0, 0]),
       SetTraining False]))) = [[1, 4, 2, 5, 3, 6], [7, 10, 8, 11, 9, 12]] \<and>
   linearize (weight (run_forward_pre_hooks (run (init two_channel_base)
      [IncrementalForward [[[3, 4]], [[7, 8]]], SetTraining True,
       Forward [[[3, 4]], [[7, 8]]], Backward [],
       UpdateInPlace [[[1, 1, 1], [1, 1, 1]], [[2, 2, 2], [2, 2, 2]]] (Some [0, 0]),
       SetTraining False]))) = [[1, 1, 1, 1, 1, 1], [2, 2, 2, 2, 2, 2]]"
  by code_simp

section \<open>Removing future time steps\<close>

text \<open>
  C5. \<open>remove_future_timesteps\<close> returns a tensor and no layer, so it changes no state.
  With kernel width above 1 and positive padding every batch row of the result is the
  row of the input without its last \<open>padding\<close> time steps (without all of them when
  the row has fewer); in every other case the result is the input.
\<close>

theorem remove_future_timesteps_slices:
  "(kernel_size L > 1 \<and> padding L > 0 \<longrightarrow>
      length (remove_future_timesteps L x) = length x \<and>
      (\<forall>n < length x.
         length (remove_future_timesteps L x ! n) = length (x ! n) - padding L \<and>
         x ! n = remove_future_timesteps L x ! n @ drop (length (x ! n) - padding L) (x ! n) \<and>
         (padding L \<le> length (x ! n) \<longrightarrow>
            length (drop (length (x ! n) - padding L) (x ! n)) = padding L))) \<and>
   (\<not> (kernel_size L > 1 \<and> padding L > 0) \<longrightarrow> remove_future_timesteps L x = x)"
  by (auto simp: remove_future_timesteps_def)

theorem remove_future_timesteps_slices_witness:
  "kernel_size scenario_layer > 1 \<and> padding scenario_layer > 0 \<and>
   remove_future_timesteps scenario_layer [[[3], [8], [14], [20], [11], [4]]]
     = [[[3], [8], [14], [20]]] \<and>
   \<not> (kernel_size (scenario_layer\<lparr>padding := 0\<rparr>) > 1 \<and> padding (scenario_layer\<lparr>padding := 0\<rparr>) > 0) \<and>
   remove_future_timesteps (scenario_layer\<lparr>padding := 0\<rparr>) [[[3], [8]]] = [[[3], [8]]]"
  using remove_future_timesteps_slices [of scenario_layer "[[[3], [8], [14], [20], [11], [4]]]"]
    remove_future_timesteps_slices [of "scenario_layer\<lparr>padding := 0\<rparr>" "[[[3], [8]]]"]
  by (simp add: scenario_layer_def remove_future_timesteps_def)

section \<open>Reordering the buffer\<close>

text \<open>
  C7. Without a buffer (also right after \<open>clear_buffer\<close> or construction)
  \<open>reorder_buffer\<close> returns the layer as it is. With a buffer and indices that name
  batch rows, the only field that changes is the buffer, and row \<open>i\<close> of the new buffer
  is row \<open>new_order ! i\<close> of the old one; an index may occur several times.
\<close>

theorem reorder_buffer_reindexes:
  "(input_buffer L = None \<longrightarrow> reorder_buffer L new_order = Inr L) \<and>
   reorder_buffer (clear_buffer L) new_order = Inr (clear_buffer L) \<and>
   reorder_buffer (init L) new_order = Inr (init L) \<and>
   (\<forall>buf. input_buffer L = Some buf \<and> (\<forall>i \<in> set new_order. i < length buf) \<longrightarrow>
      (\<exists>buf'. reorder_buffer L new_order = Inr (L\<lparr>input_buffer := Some buf'\<rparr>) \<and>
         length buf' = length new_order \<and>
         (\<forall>i < length new_order. buf' ! i = buf ! (new_order ! i))))"
  by (auto simp: reorder_buffer_def clear_buffer_def init_def list_all_iff)

theorem reorder_buffer_reindexes_witness:
  "input_buffer buffered_layer = Some [[[1], [2]], [[3], [4]], [[5], [6]]] \<and>
   list_all (\<lambda>i. i < length [[[1::int], [2]], [[3], [4]], [[5], [6]]]) [2, 0, 2, 1] \<and>
   reorder_buffer buffered_layer [2, 0, 2, 1] =
     Inr (buffered_layer\<lparr>input_buffer := Some [[[5], [6]], [[1], [2]], [[5], [6]], [[3], [4]]]\<rparr>) \<and>
   input_buffer scenario_layer = None \<and>
   reorder_buffer scenario_layer [2, 0] = Inr scenario_layer"
  using reorder_buffer_reindexes [of buffered_layer "[2, 0, 2, 1]"]
    reorder_buffer_reindexes [of scenario_layer "[2, 0]"]
  by (simp add: buffered_layer_def scenario_layer_def reorder_buffer_def)

end
